theory Spec2Isabelle
  imports Complex_Main
begin

section \<open>Exceptions\<close>

text \<open>
  The Python code signals every failure by raising. A raise is modelled as the left
  injection of a sum type. \<open>HTTPException\<close> carries its status code and its detail, which
  the source gives either as a plain string or as a dictionary with the keys
  \<open>error\<close> and \<open>message\<close>. \<open>EngineError\<close> stands for whatever the external libraries
  (PIL, pytesseract, pdf2image, the file system, the database driver) raise.
\<close>

datatype detail = Text string | ErrorDict string string

datatype exn =
    HTTPException nat detail
  | AttributeError
  | ValueError
  | EngineError string

section \<open>Text and character classes\<close>

text \<open>
  A Python \<open>str\<close> is a sequence of code points. The model covers the strings whose code
  points are below 256, one \<open>char\<close> per code point. On this range the classes of the
  \<open>re\<close> module (for \<open>str\<close> patterns) and \<open>str.lower\<close> are the following.
\<close>

definition code :: "char \<Rightarrow> nat" where
  "code c = of_char c"

definition is_digit :: "char \<Rightarrow> bool" where
  \<comment> \<open>\<open>\d\<close>\<close>
  "is_digit c = (48 \<le> code c \<and> code c \<le> 57)"

definition is_space :: "char \<Rightarrow> bool" where
  \<comment> \<open>\<open>\s\<close>\<close>
  "is_space c = ((9 \<le> code c \<and> code c \<le> 13) \<or> (28 \<le> code c \<and> code c \<le> 32)
                 \<or> code c = 133 \<or> code c = 160)"

definition is_word :: "char \<Rightarrow> bool" where
  \<comment> \<open>\<open>\w\<close>: alphanumeric or underscore\<close>
  "is_word c = (is_digit c
                \<or> (65 \<le> code c \<and> code c \<le> 90) \<or> code c = 95 \<or> (97 \<le> code c \<and> code c \<le> 122)
                \<or> code c = 170 \<or> code c = 178 \<or> code c = 179 \<or> code c = 181
                \<or> code c = 185 \<or> code c = 186 \<or> (188 \<le> code c \<and> code c \<le> 190)
                \<or> (192 \<le> code c \<and> code c \<le> 214) \<or> (216 \<le> code c \<and> code c \<le> 246)
                \<or> 248 \<le> code c)"

definition lower_char :: "char \<Rightarrow> char" where
  \<comment> \<open>the lower-case mapping of one code point\<close>
  "lower_char c =
     (if (65 \<le> code c \<and> code c \<le> 90) \<or> (192 \<le> code c \<and> code c \<le> 222 \<and> code c \<noteq> 215)
      then char_of (code c + 32) else c)"

definition lower :: "string \<Rightarrow> string" where
  \<comment> \<open>\<open>str.lower()\<close>\<close>
  "lower s = map lower_char s"

section \<open>Regular expressions as \<open>re.search\<close> runs them\<close>

text \<open>
  The two patterns of \<open>parse_claim_text\<close> are sequences of single-character atoms under
  the quantifiers \<open>*\<close>, \<open>+\<close>, \<open>?\<close> and \<open>{n}\<close>, compiled with \<open>re.IGNORECASE\<close>, and end in
  their only capturing group. The matcher below is the backtracking matcher: for a
  pattern and a subject it lists, in the order in which backtracking tries them, the
  rests of the subject that remain after a match of the pattern at its start. All
  quantifiers are greedy.
\<close>

datatype atom =
    Lit char       \<comment> \<open>a literal character, compared ignoring case\<close>
  | Space          \<comment> \<open>\<open>\s\<close>\<close>
  | Word           \<comment> \<open>\<open>\w\<close>\<close>
  | Digit          \<comment> \<open>\<open>\d\<close>\<close>
  | DigitOrComma   \<comment> \<open>\<open>[\d,]\<close>\<close>

datatype item =
    One atom       \<comment> \<open>\<open>x\<close>\<close>
  | Star atom      \<comment> \<open>\<open>x*\<close>\<close>
  | Plus atom      \<comment> \<open>\<open>x+\<close>\<close>
  | Opt atom       \<comment> \<open>\<open>x?\<close>\<close>
  | Rep nat atom   \<comment> \<open>\<open>x{n}\<close>\<close>

fun atom_ok :: "atom \<Rightarrow> char \<Rightarrow> bool" where
  "atom_ok (Lit l) c = (lower_char c = lower_char l)"
| "atom_ok Space c = is_space c"
| "atom_ok Word c = is_word c"
| "atom_ok Digit c = is_digit c"
| "atom_ok DigitOrComma c = (is_digit c \<or> c = CHR '','')"

fun one :: "atom \<Rightarrow> string \<Rightarrow> string list" where
  "one a [] = []"
| "one a (c # cs) = (if atom_ok a c then [cs] else [])"

fun star :: "atom \<Rightarrow> string \<Rightarrow> string list" where
  "star a [] = [[]]"
| "star a (c # cs) = (if atom_ok a c then star a cs @ [c # cs] else [c # cs])"

fun rep :: "nat \<Rightarrow> atom \<Rightarrow> string \<Rightarrow> string list" where
  "rep 0 a s = [s]"
| "rep (Suc n) a [] = []"
| "rep (Suc n) a (c # cs) = (if atom_ok a c then rep n a cs else [])"

fun item_rests :: "item \<Rightarrow> string \<Rightarrow> string list" where
  "item_rests (One a) s = one a s"
| "item_rests (Star a) s = star a s"
| "item_rests (Plus a) s = concat (map (star a) (one a s))"
| "item_rests (Opt a) s = one a s @ [s]"
| "item_rests (Rep n a) s = rep n a s"

fun rests :: "item list \<Rightarrow> string \<Rightarrow> string list" where
  "rests [] s = [s]"
| "rests (i # is) s = concat (map (rests is) (item_rests i s))"

text \<open>
  A pattern is given as the items before its group and the items of the group. A match
  at the start of \<open>s\<close> is the first way through both; group 1 is what the group's items
  consumed.
\<close>

definition match_here :: "item list \<Rightarrow> item list \<Rightarrow> string \<Rightarrow> string option" where
  "match_here pre grp s =
     (case concat (map (\<lambda>s1. map (\<lambda>s2. take (length s1 - length s2) s1) (rests grp s1))
                       (rests pre s)) of
        [] \<Rightarrow> None
      | g # _ \<Rightarrow> Some g)"

text \<open>\<open>re.search\<close> tries the start positions from left to right, the end of the text included.\<close>

fun re_search :: "item list \<Rightarrow> item list \<Rightarrow> string \<Rightarrow> string option" where
  "re_search pre grp [] = match_here pre grp []"
| "re_search pre grp (c # cs) =
     (case match_here pre grp (c # cs) of
        Some g \<Rightarrow> Some g
      | None \<Rightarrow> re_search pre grp cs)"

definition lits :: "string \<Rightarrow> item list" where
  "lits s = map (\<lambda>c. One (Lit c)) s"

text \<open>
  Two notions for stating how the search behaves. \<open>matches_in_order\<close> lists group 1 of the
  match at every start position that has one, from left to right. A function on
  characters satisfies \<open>same_letter\<close> when it changes nothing but the case of letters.
\<close>

fun tails :: "string \<Rightarrow> string list" where
  "tails [] = [[]]"
| "tails (c # cs) = (c # cs) # tails cs"

definition matches_in_order :: "item list \<Rightarrow> item list \<Rightarrow> string \<Rightarrow> string list" where
  "matches_in_order pre grp tx = List.map_filter (match_here pre grp) (tails tx)"

definition same_letter :: "(char \<Rightarrow> char) \<Rightarrow> bool" where
  "same_letter f = (\<forall>c. lower_char (f c) = lower_char c)"

section \<open>\<open>float\<close> of a decimal literal\<close>

text \<open>
  \<open>float(s)\<close> on a string made of an optional sign, digits and at most one point: it
  raises \<open>ValueError\<close> when there is no digit. The value is given as the exact decimal;
  the rounding to the nearest double is not modelled. Any other string is taken to raise.
\<close>

definition digit_val :: "char \<Rightarrow> nat" where
  "digit_val c = code c - 48"

definition digits_val :: "string \<Rightarrow> nat" where
  "digits_val ds = foldl (\<lambda>n c. 10 * n + digit_val c) 0 ds"

definition unsigned_float :: "string \<Rightarrow> exn + rat" where
  "unsigned_float s =
     (let ip = takeWhile is_digit s; r = dropWhile is_digit s in
      case r of
        [] \<Rightarrow> if ip = [] then Inl ValueError else Inr (of_nat (digits_val ip))
      | c # fp \<Rightarrow>
          if c = CHR ''.'' \<and> list_all is_digit fp \<and> (ip \<noteq> [] \<or> fp \<noteq> [])
          then Inr (of_nat (digits_val ip) + of_nat (digits_val fp) / 10 ^ length fp)
          else Inl ValueError)"

definition py_float :: "string \<Rightarrow> exn + rat" where
  "py_float s =
     (case s of
        [] \<Rightarrow> Inl ValueError
      | c # cs \<Rightarrow>
          if c = CHR ''-'' then map_sum id uminus (unsigned_float cs)
          else if c = CHR ''+'' then unsigned_float cs
          else unsigned_float s)"

section \<open>\<open>services.parse_claim_text\<close>\<close>

record parsed =
  p_claim_type :: "string option"
  p_amount :: "rat option"

definition claim_type_pre :: "item list" where
  \<comment> \<open>\<open>Claim\s*Type\s*:\s*\<close>\<close>
  "claim_type_pre =
     lits ''Claim'' @ [Star Space] @ lits ''Type'' @ [Star Space] @ lits '':'' @ [Star Space]"

definition claim_type_grp :: "item list" where
  \<comment> \<open>\<open>(\w+)\<close>\<close>
  "claim_type_grp = [Plus Word]"

definition amount_pre :: "item list" where
  \<comment> \<open>\<open>Amount\s*:\s*\$?\<close>\<close>
  "amount_pre = lits ''Amount'' @ [Star Space] @ lits '':'' @ [Star Space, Opt (Lit CHR ''$'')]"

definition amount_grp :: "item list" where
  \<comment> \<open>\<open>([\d,]+\.\d{2})\<close>\<close>
  "amount_grp = [Plus DigitOrComma, One (Lit CHR ''.''), Rep 2 Digit]"

definition strip_commas :: "string \<Rightarrow> string" where
  \<comment> \<open>\<open>.replace(",", "")\<close>\<close>
  "strip_commas s = filter (\<lambda>c. c \<noteq> CHR '','') s"

definition parse_claim_text :: "string \<Rightarrow> exn + parsed" where
  "parse_claim_text text =
     (let claim_type = re_search claim_type_pre claim_type_grp text in
      case re_search amount_pre amount_grp text of
        None \<Rightarrow> Inr \<lparr>p_claim_type = claim_type, p_amount = None\<rparr>
      | Some g \<Rightarrow>
          (case py_float (strip_commas g) of
             Inl e \<Rightarrow> Inl e
           | Inr a \<Rightarrow> Inr \<lparr>p_claim_type = claim_type, p_amount = Some a\<rparr>))"

section \<open>\<open>os.path.splitext\<close>\<close>

text \<open>
  The extension that \<open>os.path.splitext(p)[1]\<close> returns: the part of the last path
  component from its last point on, when a character other than a point precedes that
  point in the component; the empty string otherwise. The separators (\<open>os.sep\<close>, and
  \<open>os.altsep\<close> where there is one) are a parameter.
\<close>

definition splitext_ext :: "char list \<Rightarrow> string \<Rightarrow> string" where
  "splitext_ext seps p =
     (let name = rev (takeWhile (\<lambda>c. c \<notin> set seps) (rev p));
          body = dropWhile (\<lambda>c. c = CHR ''.'') name
      in if CHR ''.'' \<in> set body
         then CHR ''.'' # rev (takeWhile (\<lambda>c. c \<noteq> CHR ''.'') (rev body))
         else [])"

section \<open>\<open>services.extract_text_from_file\<close>\<close>

text \<open>
  The OCR engine, the PDF rasterizer and the disk are collaborators; the model takes them
  as an environment. A document is the content stored under its path. The engines are
  functions of that content, each free to fail. \<open>exn_str\<close> is \<open>str(e)\<close>.
\<close>

record 'img ocr_env =
  path_seps :: "char list"
  files :: "string \<rightharpoonup> string"
  image_open :: "string \<Rightarrow> exn + 'img"
  image_to_string :: "'img \<Rightarrow> exn + string"
  convert_from_path :: "string \<Rightarrow> exn + 'img list"
  decode_utf8 :: "string \<Rightarrow> exn + string"
  exn_str :: "exn \<Rightarrow> string"

definition bind_exn :: "exn + 'a \<Rightarrow> ('a \<Rightarrow> exn + 'b) \<Rightarrow> exn + 'b" where
  \<comment> \<open>sequencing: the first raise ends the computation\<close>
  "bind_exn m f = (case m of Inl e \<Rightarrow> Inl e | Inr x \<Rightarrow> f x)"

definition read_file :: "'img ocr_env \<Rightarrow> string \<Rightarrow> exn + string" where
  "read_file env file_path =
     (case files env file_path of
        None \<Rightarrow> Inl (EngineError ''FileNotFoundError'')
      | Some content \<Rightarrow> Inr content)"

fun ocr_pages :: "('img \<Rightarrow> exn + string) \<Rightarrow> 'img list \<Rightarrow> exn + string list" where
  \<comment> \<open>\<open>[pytesseract.image_to_string(page) for page in pages]\<close>\<close>
  "ocr_pages ocr [] = Inr []"
| "ocr_pages ocr (page # pages) =
     bind_exn (ocr page) (\<lambda>s. bind_exn (ocr_pages ocr pages) (\<lambda>ss. Inr (s # ss)))"

fun join :: "string \<Rightarrow> string list \<Rightarrow> string" where
  \<comment> \<open>\<open>sep.join(xs)\<close>\<close>
  "join sep [] = []"
| "join sep [x] = x"
| "join sep (x # y # ys) = x @ sep @ join sep (y # ys)"

definition try_extract :: "'img ocr_env \<Rightarrow> string \<Rightarrow> exn + string" where
  \<comment> \<open>the body of the \<open>try\<close>\<close>
  "try_extract env file_path =
     (let ext = lower (splitext_ext (path_seps env) file_path) in
      if ext \<in> set [''.png'', ''.jpg'', ''.jpeg''] then
        bind_exn (read_file env file_path) (\<lambda>content.
        bind_exn (image_open env content) (image_to_string env))
      else if ext = ''.pdf'' then
        bind_exn (read_file env file_path) (\<lambda>content.
        bind_exn (convert_from_path env content) (\<lambda>pages.
        bind_exn (ocr_pages (image_to_string env) pages) (\<lambda>texts.
        Inr (join ''\<newline>'' texts))))
      else if ext = ''.txt'' then
        bind_exn (read_file env file_path) (decode_utf8 env)
      else
        Inl (HTTPException 400 (Text (''Unsupported file type: '' @ ext))))"

definition extract_text_from_file :: "'img ocr_env \<Rightarrow> string \<Rightarrow> exn + string" where
  \<comment> \<open>\<open>except Exception as e\<close> catches every raise of the body, its own \<open>HTTPException\<close> too\<close>
  "extract_text_from_file env file_path =
     (case try_extract env file_path of
        Inr text \<Rightarrow> Inr text
      | Inl e \<Rightarrow> Inl (HTTPException 500 (Text (''Failed to extract text: '' @ exn_str env e))))"

section \<open>Claims and the database session\<close>

datatype ClaimStatus = PENDING | APPROVED | REJECTED | UNDER_REVIEW

text \<open>
  A row of the table \<open>claims\<close> (\<open>models.Claim\<close>): its columns other than the primary key
  \<open>id\<close>, which keys the table, and the two clock columns. The amount is the exact decimal,
  as in \<open>py_float\<close>.
\<close>

record claim =
  claimant_name :: string
  claim_type :: string
  amount :: rat
  description :: "string option"
  document_path :: "string option"
  file_name :: "string option"
  file_type :: "string option"
  file_size :: "nat option"
  status :: ClaimStatus
  ocr_text :: "string option"

text \<open>
  The database is the committed table together with the sequence of rows that
  \<open>db.commit()\<close> has written, oldest first, each with its key. A commit is taken to
  succeed. The message of the 404 stands for the source's, which quotes the id.
\<close>

record database =
  claims :: "nat \<rightharpoonup> claim"
  commits :: "(nat \<times> claim) list"

definition db_commit :: "nat \<Rightarrow> claim \<Rightarrow> database \<Rightarrow> database" where
  "db_commit k c db = db\<lparr>claims := (claims db)(k \<mapsto> c), commits := commits db @ [(k, c)]\<rparr>"

definition get_claim_or_404 :: "nat \<Rightarrow> database \<Rightarrow> exn + claim" where
  "get_claim_or_404 k db =
     (case claims db k of
        None \<Rightarrow> Inl (HTTPException 404 (ErrorDict ''CLAIM_NOT_FOUND'' ''No claim found with this ID''))
      | Some c \<Rightarrow> Inr c)"

section \<open>\<open>main.analyze_claim\<close>\<close>

record ClaimAnalysisResponse =
  claim_id :: nat
  source_file :: string
  extracted_text :: string

definition try_analyze ::
  "'img ocr_env \<Rightarrow> nat \<Rightarrow> claim \<Rightarrow> string \<Rightarrow> database
     \<Rightarrow> (exn + ClaimAnalysisResponse) \<times> database" where
  \<comment> \<open>the body of the \<open>try\<close>; \<open>c\<close> is the claim of key \<open>cid\<close>, \<open>path\<close> its \<open>document_path\<close>\<close>
  "try_analyze env cid c path db =
     (case extract_text_from_file env path of
        Inl e \<Rightarrow> (Inl e, db)
      | Inr text \<Rightarrow>
          (case parse_claim_text text of
             Inl e \<Rightarrow> (Inl e, db)
           | Inr parsed \<Rightarrow>
               (let c1 = c\<lparr>ocr_text := Some text\<rparr>;
                    db1 = db_commit cid c1 db;
                    has_type = (case p_claim_type parsed of None \<Rightarrow> False | Some t \<Rightarrow> t \<noteq> []);
                    c2 = (if has_type then c1\<lparr>claim_type := the (p_claim_type parsed)\<rparr> else c1);
                    has_amount = (p_amount parsed \<noteq> None);
                    c3 = (if has_amount then c2\<lparr>amount := the (p_amount parsed)\<rparr> else c2);
                    updated_fields = (if has_type then [''claim_type''] else [])
                                     @ (if has_amount then [''amount''] else []);
                    db2 = (if updated_fields \<noteq> [] then db_commit cid c3 db1 else db1)
                in (Inr \<lparr>claim_id = cid, source_file = path, extracted_text = text\<rparr>,
                    db2))))"

definition analyze_claim ::
  "'img ocr_env \<Rightarrow> nat \<Rightarrow> database \<Rightarrow> (exn + ClaimAnalysisResponse) \<times> database" where
  "analyze_claim env cid db =
     (case get_claim_or_404 cid db of
        Inl e \<Rightarrow> (Inl e, db)
      | Inr c \<Rightarrow>
          (case document_path c of
             None \<Rightarrow> (Inl (HTTPException 404 (Text ''Document file not found for this claim.'')), db)
           | Some path \<Rightarrow>
               if path = [] \<or> files env path = None
               then (Inl (HTTPException 404 (Text ''Document file not found for this claim.'')), db)
               else
                 (case try_analyze env cid c path db of
                    (Inr r, db') \<Rightarrow> (Inr r, db')
                  | (Inl e, db') \<Rightarrow>
                      (Inl (HTTPException 500 (Text
                         ''OCR analysis failed. Please check the uploaded file format or contents.'')),
                       db'))))"

text \<open>
  For stating what a run leaves behind: \<open>apply_fields\<close> is a row with the fields that
  were found patched in, \<open>final_row\<close> the row after a run that extracted \<open>tx\<close>.
\<close>

definition apply_fields :: "parsed \<Rightarrow> claim \<Rightarrow> claim" where
  "apply_fields parsed c =
     c\<lparr>claim_type := (case p_claim_type parsed of None \<Rightarrow> claim_type c | Some t \<Rightarrow> t),
       amount := (case p_amount parsed of None \<Rightarrow> amount c | Some a \<Rightarrow> a)\<rparr>"

definition final_row :: "parsed \<Rightarrow> string \<Rightarrow> claim \<Rightarrow> claim" where
  "final_row parsed tx c = apply_fields parsed (c\<lparr>ocr_text := Some tx\<rparr>)"

section \<open>\<open>rate_limiter.rate_limiter\<close>\<close>

record block_event =
  timestamp :: string
  ip :: string
  api_key :: string
  reason :: string

text \<open>
  \<open>call_log\<close> is a \<open>defaultdict(list)\<close>: every key has a list, empty until written.
  \<open>block_log\<close> is a \<open>deque(maxlen=100)\<close>. Timestamps are the seconds of \<open>time.time()\<close>,
  taken as exact numbers. The dash in the detail of the 429 is written as a hyphen.
\<close>

record limiter =
  call_log :: "string \<times> string \<Rightarrow> rat list"
  block_log :: "block_event list"

definition startup :: limiter where
  \<comment> \<open>the module-level state when the process starts\<close>
  "startup = \<lparr>call_log = (\<lambda>k. []), block_log = []\<rparr>"

definition RATE_LIMIT :: nat where
  "RATE_LIMIT = 30"

definition deque_append :: "nat \<Rightarrow> 'a \<Rightarrow> 'a list \<Rightarrow> 'a list" where
  \<comment> \<open>\<open>append\<close> on a deque of bounded length drops from the left\<close>
  "deque_append maxlen x xs = (let ys = xs @ [x] in drop (length ys - maxlen) ys)"

text \<open>
  The module imports \<open>from datetime import datetime, timezone\<close>, so the name \<open>datetime\<close>
  is the class. The expression \<open>datetime.timezone\<close>, which the denial branch evaluates
  first when it builds the block event, looks up an attribute that the class does not have.
\<close>

definition datetime_timezone :: "exn + unit" where
  "datetime_timezone = Inl AttributeError"

definition rate_limiter ::
  "string option \<Rightarrow> string \<Rightarrow> rat \<Rightarrow> string \<Rightarrow> limiter \<Rightarrow> (exn + unit) \<times> limiter" where
  \<comment> \<open>\<open>host\<close> is \<open>request.client.host\<close>, \<open>now\<close> is \<open>time.time()\<close>, \<open>stamp\<close> the ISO time of the clock\<close>
  "rate_limiter host key now stamp st =
     (let client_ip = (case host of None \<Rightarrow> ''unknown'' | Some h \<Rightarrow> if h = [] then ''unknown'' else h);
          rate_key = (client_ip, key);
          window_start = now - 60;
          recent_calls = filter (\<lambda>t. t > window_start) (call_log st rate_key);
          st1 = st\<lparr>call_log := (call_log st)(rate_key := recent_calls)\<rparr>
      in if length recent_calls \<ge> RATE_LIMIT then
           (case datetime_timezone of
              Inl e \<Rightarrow> (Inl e, st1)
            | Inr u \<Rightarrow>
                (Inl (HTTPException 429 (Text ''Rate limit exceeded - try again in a bit.'')),
                 st1\<lparr>block_log := deque_append 100
                        \<lparr>timestamp = stamp, ip = client_ip, api_key = key,
                         reason = ''Rate limit exceeded''\<rparr> (block_log st1)\<rparr>))
         else
           (Inr (), st1\<lparr>call_log := (call_log st1)(rate_key := recent_calls @ [now])\<rparr>))"

text \<open>One caller's requests in sequence, each with the reading of the clock when it arrives.\<close>

fun serve ::
  "string option \<Rightarrow> string \<Rightarrow> rat list \<Rightarrow> limiter \<Rightarrow> (exn + unit) list \<times> limiter" where
  "serve host key [] st = ([], st)"
| "serve host key (now # later) st =
     (let (r, st1) = rate_limiter host key now [] st;
          (rs, st2) = serve host key later st1
      in (r # rs, st2))"

text \<open>
  For stating what the limiter does: \<open>rate_key_of\<close> is the key under which a caller is
  counted, \<open>recent\<close> the timestamps that pruning keeps, \<open>with_log\<close> a state with the list
  of one key replaced.
\<close>

definition rate_key_of :: "string option \<Rightarrow> string \<Rightarrow> string \<times> string" where
  "rate_key_of host key =
     ((case host of None \<Rightarrow> ''unknown'' | Some h \<Rightarrow> if h = [] then ''unknown'' else h), key)"

definition recent :: "rat \<Rightarrow> rat list \<Rightarrow> rat list" where
  "recent now stamps = filter (\<lambda>t. now - 60 < t) stamps"

definition with_log :: "limiter \<Rightarrow> string \<times> string \<Rightarrow> rat list \<Rightarrow> limiter" where
  "with_log st k stamps = st\<lparr>call_log := (call_log st)(k := stamps)\<rparr>"

section \<open>\<open>main.upload_file\<close>\<close>

definition FILE_SIZE_LIMITS :: "string \<rightharpoonup> nat" where
  "FILE_SIZE_LIMITS = map_of
     [(''image/png'', 15 * 1024 * 1024),
      (''image/jpeg'', 15 * 1024 * 1024),
      (''application/pdf'', 20 * 1024 * 1024),
      (''text/plain'', 5 * 1024 * 1024)]"

definition UPLOAD_DIR :: string where
  "UPLOAD_DIR = ''uploads''"

text \<open>
  The collaborators of the upload: \<open>magic_from_file\<close> sniffs the type of a content;
  \<open>show_types\<close> and \<open>show_mb\<close> render the allow-list and a size in megabytes for the
  messages; \<open>store\<close> is the outcome of the steps after validation (\<open>save_uploaded_file\<close>,
  \<open>create_claim\<close>, \<open>ClaimOut.model_validate\<close>). The temporary path is the upload directory
  joined with a relative file name. The messages leave out the quotation marks that the
  source puts around the type.
\<close>

record 'out upload_env =
  magic_from_file :: "string \<Rightarrow> string"
  show_types :: string
  show_mb :: "nat \<Rightarrow> string"
  store :: "exn + 'out"

definition try_upload ::
  "'out upload_env \<Rightarrow> string \<Rightarrow> string \<Rightarrow> (string \<rightharpoonup> string) \<Rightarrow> (exn + 'out) \<times> (string \<rightharpoonup> string)" where
  \<comment> \<open>the body of the \<open>try\<close>; \<open>disk\<close> maps a path to the content stored there\<close>
  "try_upload env filename content disk =
     (let temp_file_path = UPLOAD_DIR @ ''/'' @ filename;
          disk1 = disk(temp_file_path \<mapsto> content);
          mime_type = magic_from_file env content
      in case FILE_SIZE_LIMITS mime_type of
           None \<Rightarrow>
             (Inl (HTTPException 400 (ErrorDict ''INVALID_FILE_TYPE''
                (''File type '' @ mime_type @ '' is not allowed. Allowed types: '' @ show_types env))),
              disk1(temp_file_path := None))
         | Some max_size \<Rightarrow>
             if length content > max_size then
               (Inl (HTTPException 400 (ErrorDict ''FILE_TOO_LARGE''
                  (''File exceeds limit. Max allowed: '' @ show_mb env max_size @ ''MB''))),
                disk1(temp_file_path := None))
             else (store env, disk1))"

definition upload_file ::
  "'out upload_env \<Rightarrow> string \<Rightarrow> string \<Rightarrow> (string \<rightharpoonup> string) \<Rightarrow> (exn + 'out) \<times> (string \<rightharpoonup> string)" where
  \<comment> \<open>\<open>except Exception as e\<close> catches every raise of the body, its own \<open>HTTPException\<close>s too\<close>
  "upload_file env filename content disk =
     (case try_upload env filename content disk of
        (Inr out, disk') \<Rightarrow> (Inr out, disk')
      | (Inl e, disk') \<Rightarrow>
          (Inl (HTTPException 500 (ErrorDict ''UPLOAD_FAILED''
             ''File upload failed due to an internal error.'')), disk'))"

section \<open>A small world to run the code in\<close>

text \<open>
  An environment with a few stored documents: a text file, byte-identical copies of it
  named as a PDF and as an upper-case \<open>.TXT\<close>, a PDF of three pages, a word-processor
  file and a text file without fields. The rasterizer
  accepts a content that starts with \<open>%PDF\<close> and makes one page of every character
  after the header; its OCR reads a page as it is; no stored content is an image.
\<close>

definition sample_env :: "string ocr_env" where
  "sample_env =
     \<lparr>path_seps = ''/'',
      files = [''uploads/doc.txt'' \<mapsto> ''Claim Type: Auto'',
               ''uploads/doc.pdf'' \<mapsto> ''Claim Type: Auto'',
               ''uploads/DOC.TXT'' \<mapsto> ''Claim Type: Auto'',
               ''uploads/scan.pdf'' \<mapsto> ''%PDF ABC'',
               ''uploads/claim.docx'' \<mapsto> ''PK'',
               ''uploads/note.txt'' \<mapsto> ''nothing to find''],
      image_open = (\<lambda>content. Inl (EngineError ''cannot identify image file'')),
      image_to_string = (\<lambda>page. Inr page),
      convert_from_path = (\<lambda>content.
         if take 4 content = ''%PDF'' then Inr (map (\<lambda>c. [c]) (drop 5 content))
         else Inl (EngineError ''Unable to get page count'')),
      decode_utf8 = (\<lambda>content. Inr content),
      exn_str = (\<lambda>e. case e of
                       EngineError m \<Rightarrow> m
                     | HTTPException n (Text d) \<Rightarrow> d
                     | HTTPException n (ErrorDict c m) \<Rightarrow> m
                     | AttributeError \<Rightarrow> ''AttributeError''
                     | ValueError \<Rightarrow> ''ValueError'')\<rparr>"

definition sample_claim :: claim where
  "sample_claim =
     \<lparr>claimant_name = ''Ada'', claim_type = ''Home'', amount = 10, description = None,
      document_path = Some ''uploads/doc.txt'', file_name = None, file_type = None,
      file_size = None, status = PENDING, ocr_text = None\<rparr>"

definition sample_db :: database where
  "sample_db =
     \<lparr>claims = [1 \<mapsto> sample_claim,
                2 \<mapsto> sample_claim\<lparr>document_path := Some ''uploads/doc.pdf''\<rparr>,
                3 \<mapsto> sample_claim\<lparr>document_path := Some ''uploads/note.txt''\<rparr>],
      commits = []\<rparr>"

text \<open>
  An upload service whose sniffer takes a content that starts with \<open>PK\<close> for a zip
  archive and any other content for plain text, and whose later steps succeed.
\<close>

definition sample_upload :: "unit upload_env" where
  "sample_upload =
     \<lparr>magic_from_file = (\<lambda>content. if take 2 content = ''PK'' then ''application/zip''
                                    else ''text/plain''),
      show_types = ''[image/png, image/jpeg, application/pdf, text/plain]'',
      show_mb = (\<lambda>n. if n = 5 * 1024 * 1024 then ''5.0'' else if n = 20 * 1024 * 1024 then ''20.0''
                      else ''15.0''),
      store = Inr ()\<rparr>"

section \<open>The matcher consumes what its pattern describes\<close>

lemma code_inj: "code c = code d \<Longrightarrow> c = d"
  by (simp add: code_def)

lemma code_lower_char:
  "code (lower_char c) =
     (if (65 \<le> code c \<and> code c \<le> 90) \<or> (192 \<le> code c \<and> code c \<le> 222 \<and> code c \<noteq> 215)
      then code c + 32 else code c)"
  by (auto simp: lower_char_def code_def)

lemma lit_dot: "atom_ok (Lit CHR ''.'') c \<Longrightarrow> c = CHR ''.''"
proof -
  assume "atom_ok (Lit CHR ''.'') c"
  then have "code (lower_char c) = code (lower_char CHR ''.'')" by simp
  then have "code c = code CHR ''.''"
    by (auto simp: code_lower_char split: if_splits) (simp_all add: code_def)
  then show ?thesis by (rule code_inj)
qed

lemma one_sound: "r \<in> set (one a s) \<Longrightarrow> \<exists>c. s = c # r \<and> atom_ok a c"
  by (cases s) (auto split: if_splits)

lemma star_sound: "r \<in> set (star a s) \<Longrightarrow> \<exists>g. s = g @ r \<and> list_all (atom_ok a) g"
proof (induction s)
  case Nil
  then show ?case by simp
next
  case (Cons c cs)
  show ?case
  proof (cases "r = c # cs")
    case True
    then show ?thesis by simp
  next
    case False
    with Cons.prems have ok: "atom_ok a c" and "r \<in> set (star a cs)"
      by (auto split: if_splits)
    then obtain g where "cs = g @ r" "list_all (atom_ok a) g"
      using Cons.IH by blast
    with ok have "c # cs = (c # g) @ r \<and> list_all (atom_ok a) (c # g)" by simp
    then show ?thesis by blast
  qed
qed

lemma rep_sound:
  "r \<in> set (rep n a s) \<Longrightarrow> \<exists>g. s = g @ r \<and> length g = n \<and> list_all (atom_ok a) g"
proof (induction n a s rule: rep.induct)
  case (1 a s)
  then show ?case by simp
next
  case (2 n a)
  then show ?case by simp
next
  case (3 n a c cs)
  then have ok: "atom_ok a c" and "r \<in> set (rep n a cs)"
    by (auto split: if_splits)
  then obtain g where "cs = g @ r" "length g = n" "list_all (atom_ok a) g"
    using 3 by blast
  with ok have "c # cs = (c # g) @ r \<and> length (c # g) = Suc n \<and> list_all (atom_ok a) (c # g)"
    by simp
  then show ?case by blast
qed

lemma plus_sound:
  "r \<in> set (item_rests (Plus a) s) \<Longrightarrow> \<exists>g. s = g @ r \<and> g \<noteq> [] \<and> list_all (atom_ok a) g"
proof -
  assume "r \<in> set (item_rests (Plus a) s)"
  then obtain s1 where s1: "s1 \<in> set (one a s)" and r: "r \<in> set (star a s1)"
    by auto
  from one_sound [OF s1] obtain c where c: "s = c # s1" "atom_ok a c" by blast
  from star_sound [OF r] obtain g where g: "s1 = g @ r" "list_all (atom_ok a) g" by blast
  from c g have "s = (c # g) @ r \<and> c # g \<noteq> [] \<and> list_all (atom_ok a) (c # g)" by simp
  then show ?thesis by blast
qed

lemma amount_grp_sound:
  assumes "r \<in> set (rests amount_grp s)"
  shows "\<exists>ds d1 d2. s = ds @ [CHR ''.'', d1, d2] @ r \<and> ds \<noteq> []
           \<and> list_all (\<lambda>c. is_digit c \<or> c = CHR '','') ds \<and> is_digit d1 \<and> is_digit d2"
proof -
  from assms obtain s1 s2 where s1: "s1 \<in> set (item_rests (Plus DigitOrComma) s)"
    and s2: "s2 \<in> set (one (Lit CHR ''.'') s1)"
    and r: "r \<in> set (rep 2 Digit s2)"
    by (auto simp: amount_grp_def)
  from plus_sound [OF s1] obtain ds where ds: "s = ds @ s1" "ds \<noteq> []"
    "list_all (atom_ok DigitOrComma) ds" by blast
  from one_sound [OF s2] obtain c where c: "s1 = c # s2" "atom_ok (Lit CHR ''.'') c" by blast
  from rep_sound [OF r] obtain g where g: "s2 = g @ r" "length g = 2" "list_all (atom_ok Digit) g"
    by blast
  from g(2) obtain d1 d2 where g12: "g = [d1, d2]"
    by (cases g; cases "tl g"; auto)
  from c(2) have cdot: "c = CHR ''.''" by (rule lit_dot)
  from ds(3) have dsok: "list_all (\<lambda>c. is_digit c \<or> c = CHR '','') ds"
    by (simp add: list_all_iff)
  from ds c g g12 cdot dsok show ?thesis by auto
qed

lemma match_here_Some:
  "match_here pre grp s = Some g \<Longrightarrow>
     \<exists>s1 s2. s1 \<in> set (rests pre s) \<and> s2 \<in> set (rests grp s1) \<and> g = take (length s1 - length s2) s1"
proof -
  assume a: "match_here pre grp s = Some g"
  let ?L = "concat (map (\<lambda>s1. map (\<lambda>s2. take (length s1 - length s2) s1) (rests grp s1)) (rests pre s))"
  from a obtain xs where eq: "?L = g # xs"
    by (auto simp: match_here_def split: list.splits)
  have "g \<in> set ?L"
    by (subst eq) simp
  then show ?thesis by auto
qed

lemma re_search_Some:
  "re_search pre grp tx = Some g \<Longrightarrow> \<exists>s. match_here pre grp s = Some g"
  by (induction tx) (auto split: option.splits)

lemma amount_group_shape:
  assumes "re_search amount_pre amount_grp tx = Some g"
  shows "\<exists>ds d1 d2. g = ds @ [CHR ''.'', d1, d2] \<and> ds \<noteq> []
           \<and> list_all (\<lambda>c. is_digit c \<or> c = CHR '','') ds \<and> is_digit d1 \<and> is_digit d2"
proof -
  from re_search_Some [OF assms] obtain s where "match_here amount_pre amount_grp s = Some g" ..
  from match_here_Some [OF this] obtain s1 s2 where s2: "s2 \<in> set (rests amount_grp s1)"
    and g: "g = take (length s1 - length s2) s1" by blast
  from amount_grp_sound [OF s2] obtain ds d1 d2 where
    s1: "s1 = ds @ [CHR ''.'', d1, d2] @ s2" and rest: "ds \<noteq> []"
      "list_all (\<lambda>c. is_digit c \<or> c = CHR '','') ds" "is_digit d1" "is_digit d2"
    by blast
  from s1 g have "g = ds @ [CHR ''.'', d1, d2]" by simp
  with rest show ?thesis by blast
qed

lemma not_digit_simps: "\<not> is_digit CHR ''.''" "\<not> is_digit CHR ''-''" "\<not> is_digit CHR ''+''" "\<not> is_digit CHR '',''"
  by (simp_all add: is_digit_def code_def)

lemma strip_commas_digits:
  "list_all (\<lambda>c. is_digit c \<or> c = CHR '','') ds \<Longrightarrow> list_all is_digit (strip_commas ds)"
  by (induction ds) (auto simp: strip_commas_def)

lemma unsigned_float_decimal:
  assumes "list_all is_digit ipart" "list_all is_digit fpart" "fpart \<noteq> []"
  shows "unsigned_float (ipart @ CHR ''.'' # fpart)
           = Inr (of_nat (digits_val ipart) + of_nat (digits_val fpart) / 10 ^ length fpart)"
proof -
  from assms(1) have tw: "takeWhile is_digit (ipart @ CHR ''.'' # fpart) = ipart"
    by (simp add: list_all_iff not_digit_simps)
  from assms(1) have dw: "dropWhile is_digit (ipart @ CHR ''.'' # fpart) = CHR ''.'' # fpart"
    by (simp add: list_all_iff not_digit_simps)
  show ?thesis
    using assms(2,3) by (simp add: unsigned_float_def tw dw)
qed

lemma py_float_decimal:
  assumes "list_all is_digit ipart" "list_all is_digit fpart" "fpart \<noteq> []"
  shows "py_float (ipart @ CHR ''.'' # fpart)
           = Inr (of_nat (digits_val ipart) + of_nat (digits_val fpart) / 10 ^ length fpart)"
proof (cases ipart)
  case Nil
  then show ?thesis
    using unsigned_float_decimal [OF assms] by (simp add: py_float_def)
next
  case (Cons c cs)
  with assms(1) have "is_digit c" by simp
  then have "c \<noteq> CHR ''-''" "c \<noteq> CHR ''+''"
    using not_digit_simps by auto
  then show ?thesis
    using unsigned_float_decimal [OF assms] Cons by (simp add: py_float_def)
qed

lemma amount_float:
  assumes "re_search amount_pre amount_grp tx = Some g"
  shows "\<exists>a. py_float (strip_commas g) = Inr a \<and> 0 \<le> a"
proof -
  from amount_group_shape [OF assms] obtain ds d1 d2 where
    g: "g = ds @ [CHR ''.'', d1, d2]" and ds: "list_all (\<lambda>c. is_digit c \<or> c = CHR '','') ds"
    and d: "is_digit d1" "is_digit d2" by blast
  from d have nc: "d1 \<noteq> CHR '',''" "d2 \<noteq> CHR '',''"
    using not_digit_simps by auto
  have sc: "strip_commas g = strip_commas ds @ CHR ''.'' # [d1, d2]"
    using nc by (simp add: g strip_commas_def)
  have "py_float (strip_commas ds @ CHR ''.'' # [d1, d2])
          = Inr (of_nat (digits_val (strip_commas ds)) + of_nat (digits_val [d1, d2]) / 10 ^ length [d1, d2])"
    by (rule py_float_decimal) (use ds d in \<open>simp_all add: strip_commas_digits\<close>)
  then show ?thesis
    by (simp add: sc)
qed

lemma parse_total: "\<exists>ct am. parse_claim_text tx = Inr \<lparr>p_claim_type = ct, p_amount = am\<rparr>"
proof (cases "re_search amount_pre amount_grp tx")
  case None
  then show ?thesis by (simp add: parse_claim_text_def)
next
  case (Some g)
  from amount_float [OF Some] obtain a where "py_float (strip_commas g) = Inr a" by blast
  with Some show ?thesis by (simp add: parse_claim_text_def)
qed

lemma parse_amount_nonneg:
  assumes "parse_claim_text tx = Inr r" "p_amount r = Some a"
  shows "0 \<le> a"
proof (cases "re_search amount_pre amount_grp tx")
  case None
  with assms show ?thesis by (auto simp: parse_claim_text_def)
next
  case (Some g)
  from amount_float [OF Some] obtain b where "py_float (strip_commas g) = Inr b" "0 \<le> b" by blast
  with Some assms show ?thesis by (auto simp: parse_claim_text_def)
qed

section \<open>The search is leftmost and ignores case\<close>

lemma re_search_leftmost:
  "re_search pre grp tx = (case matches_in_order pre grp tx of [] \<Rightarrow> None | g # _ \<Rightarrow> Some g)"
  by (induction tx) (auto simp: matches_in_order_def split: option.splits list.splits)

lemma is_digit_lower: "is_digit (lower_char c) = is_digit c"
  by (auto simp: is_digit_def code_lower_char)

lemma is_space_lower: "is_space (lower_char c) = is_space c"
  by (auto simp: is_space_def code_lower_char)

lemma is_word_lower: "is_word (lower_char c) = is_word c"
proof -
  consider (a) "65 \<le> code c" "code c \<le> 90"
    | (b) "192 \<le> code c" "code c \<le> 214"
    | (c) "216 \<le> code c" "code c \<le> 222"
    | (d) "\<not> ((65 \<le> code c \<and> code c \<le> 90) \<or> (192 \<le> code c \<and> code c \<le> 222 \<and> code c \<noteq> 215))"
    by arith
  then show ?thesis
  proof cases
    case a
    then show ?thesis by (simp add: is_word_def is_digit_def code_lower_char)
  next
    case b
    then show ?thesis by (simp add: is_word_def is_digit_def code_lower_char)
  next
    case c
    then show ?thesis by (simp add: is_word_def is_digit_def code_lower_char)
  next
    case d
    then have "lower_char c = c"
      unfolding lower_char_def by (simp only: if_False)
    then show ?thesis by simp
  qed
qed

lemma lower_fix: "code c < 65 \<Longrightarrow> lower_char x = lower_char c \<Longrightarrow> x = c"
proof -
  assume a: "code c < 65" "lower_char x = lower_char c"
  then have "code (lower_char x) = code (lower_char c)" by simp
  with a(1) have "code x = code c"
    by (auto simp: code_lower_char split: if_splits)
  then show ?thesis by (rule code_inj)
qed

lemma atom_ok_recase:
  assumes "lower_char d = lower_char c"
  shows "atom_ok a d = atom_ok a c"
proof (cases a)
  case (Lit l)
  then show ?thesis using assms by simp
next
  case Space
  then show ?thesis using is_space_lower [of d] is_space_lower [of c] assms by simp
next
  case Word
  then show ?thesis using is_word_lower [of d] is_word_lower [of c] assms by simp
next
  case Digit
  then show ?thesis using is_digit_lower [of d] is_digit_lower [of c] assms by simp
next
  case DigitOrComma
  have "(d = CHR '','') = (c = CHR '','')"
    using lower_fix [of "CHR '',''" d] lower_fix [of "CHR '',''" c] assms
    by (auto simp: code_def)
  then show ?thesis
    using DigitOrComma is_digit_lower [of d] is_digit_lower [of c] assms by simp
qed


lemma atom_ok_same_letter: "same_letter f \<Longrightarrow> atom_ok a (f c) = atom_ok a c"
  by (rule atom_ok_recase) (simp add: same_letter_def)

lemma one_recase: "same_letter f \<Longrightarrow> one a (map f s) = map (map f) (one a s)"
  by (cases s) (simp_all add: atom_ok_same_letter)

lemma star_recase: "same_letter f \<Longrightarrow> star a (map f s) = map (map f) (star a s)"
  by (induction s) (simp_all add: atom_ok_same_letter)

lemma rep_recase: "same_letter f \<Longrightarrow> rep n a (map f s) = map (map f) (rep n a s)"
  by (induction n a s rule: rep.induct) (simp_all add: atom_ok_same_letter)

lemma item_rests_recase:
  "same_letter f \<Longrightarrow> item_rests i (map f s) = map (map f) (item_rests i s)"
  by (cases i) (simp_all add: one_recase star_recase rep_recase map_concat comp_def)

lemma rests_recase: "same_letter f \<Longrightarrow> rests is (map f s) = map (map f) (rests is s)"
  by (induction "is" arbitrary: s) (simp_all add: item_rests_recase map_concat comp_def)

lemma first_map:
  "(case map h xs of [] \<Rightarrow> None | g # _ \<Rightarrow> Some g)
     = map_option h (case xs of [] \<Rightarrow> None | g # _ \<Rightarrow> Some g)"
  by (cases xs) simp_all

lemma match_here_recase:
  assumes "same_letter f"
  shows "match_here pre grp (map f s) = map_option (map f) (match_here pre grp s)"
proof -
  let ?cut = "\<lambda>s1. map (\<lambda>s2. take (length s1 - length s2) s1) (rests grp s1)"
  have eq: "concat (map ?cut (rests pre (map f s))) = map (map f) (concat (map ?cut (rests pre s)))"
    by (simp add: rests_recase [OF assms] map_concat comp_def take_map)
  show ?thesis
    unfolding match_here_def eq by (rule first_map)
qed

lemma re_search_recase:
  "same_letter f \<Longrightarrow> re_search pre grp (map f tx) = map_option (map f) (re_search pre grp tx)"
proof (induction tx)
  case Nil
  then show ?case
    using match_here_recase [of f pre grp "[]"] by simp
next
  case (Cons c cs)
  from Cons.prems have "match_here pre grp (f c # map f cs)
                          = map_option (map f) (match_here pre grp (c # cs))"
    using match_here_recase [of f pre grp "c # cs"] by simp
  with Cons show ?case
    by (simp split: option.splits)
qed

lemma amount_group_fixed:
  assumes "same_letter f" "re_search amount_pre amount_grp tx = Some g"
  shows "map f g = g"
proof -
  from amount_group_shape [OF assms(2)] obtain ds d1 d2 where
    g: "g = ds @ [CHR ''.'', d1, d2]" and ds: "list_all (\<lambda>c. is_digit c \<or> c = CHR '','') ds"
    and d: "is_digit d1" "is_digit d2" by blast
  have fixed: "f c = c" if "is_digit c \<or> c = CHR '','' \<or> c = CHR ''.''" for c
  proof -
    from that have "code c < 65"
      by (auto simp: is_digit_def) (simp_all add: code_def)
    moreover from assms(1) have "lower_char (f c) = lower_char c"
      by (simp add: same_letter_def)
    ultimately show ?thesis by (rule lower_fix)
  qed
  from ds have "map f ds = ds"
    by (induction ds) (auto simp: fixed)
  with d show ?thesis
    by (simp add: g fixed)
qed

lemma parse_recase:
  assumes "same_letter f"
  shows "parse_claim_text (map f tx)
           = map_sum id (\<lambda>r. r\<lparr>p_claim_type := map_option (map f) (p_claim_type r)\<rparr>)
               (parse_claim_text tx)"
proof (cases "re_search amount_pre amount_grp tx")
  case None
  then show ?thesis
    by (simp add: parse_claim_text_def re_search_recase [OF assms])
next
  case (Some g)
  from amount_group_fixed [OF assms Some] have "map f g = g" .
  with Some show ?thesis
    by (simp add: parse_claim_text_def re_search_recase [OF assms] split: sum.splits)
qed

section \<open>The field parser\<close>

lemma lower_char_idem: "lower_char (lower_char c) = lower_char c"
proof (rule code_inj)
  show "code (lower_char (lower_char c)) = code (lower_char c)"
    by (simp add: code_lower_char)
qed

lemma same_letter_lower: "same_letter lower_char"
  by (simp add: same_letter_def lower_char_idem)

lemma parse_reference_1:
  "parse_claim_text ''Claim Type: Travel\<newline>Amount: $120.00''
     = Inr \<lparr>p_claim_type = Some ''Travel'', p_amount = Some 120\<rparr>"
  by code_simp

lemma parse_reference_2:
  "parse_claim_text ''Claim Type: Auto'' = Inr \<lparr>p_claim_type = Some ''Auto'', p_amount = None\<rparr>"
  by code_simp

lemma parse_reference_3:
  "parse_claim_text ''CLAIM TYPE : Home AMOUNT : $1,234.56 Claim Type: Auto Amount: 7.00''
     = Inr \<lparr>p_claim_type = Some ''Home'', p_amount = Some (123456 / 100)\<rparr>"
  by code_simp

lemma parse_minus_1:
  "parse_claim_text ''Amount: -120.00'' = Inr \<lparr>p_claim_type = None, p_amount = None\<rparr>"
  by code_simp

lemma parse_minus_2:
  "parse_claim_text ''Amount: -120.00 Amount: 35.50''
     = Inr \<lparr>p_claim_type = None, p_amount = Some (3550 / 100)\<rparr>"
  by code_simp

lemma py_float_minus: "py_float ''-120.00'' = Inr (- 120)"
  by code_simp

lemma parse_lower_auto:
  "parse_claim_text (map lower_char ''Claim Type: Auto'')
     = Inr \<lparr>p_claim_type = Some ''auto'', p_amount = None\<rparr>"
  by code_simp

lemma parse_plain_amount:
  "parse_claim_text ''Amount: 35.50'' = Inr \<lparr>p_claim_type = None, p_amount = Some (3550 / 100)\<rparr>"
  by code_simp

text \<open>
  Claim C7. The field parser is total: for every text it returns a record of claim type
  and amount and never raises; a field that is not found is \<open>None\<close>. The two reference
  texts parse as stated. The search returns the match at the leftmost start position
  that has one. Changing the case of letters in the text changes nothing but the case of
  the letters in the claim type found. Commas are removed from the amount before
  it is converted.
\<close>

theorem parse_claim_text_total:
  "(\<exists>ct am. parse_claim_text tx = Inr \<lparr>p_claim_type = ct, p_amount = am\<rparr>)
   \<and> parse_claim_text ''Claim Type: Travel\<newline>Amount: $120.00''
       = Inr \<lparr>p_claim_type = Some ''Travel'', p_amount = Some 120\<rparr>
   \<and> parse_claim_text ''Claim Type: Auto'' = Inr \<lparr>p_claim_type = Some ''Auto'', p_amount = None\<rparr>
   \<and> re_search pre grp tx = (case matches_in_order pre grp tx of [] \<Rightarrow> None | g # _ \<Rightarrow> Some g)
   \<and> (same_letter f \<longrightarrow>
        parse_claim_text (map f tx)
          = map_sum id (\<lambda>r. r\<lparr>p_claim_type := map_option (map f) (p_claim_type r)\<rparr>)
              (parse_claim_text tx))
   \<and> parse_claim_text ''CLAIM TYPE : Home AMOUNT : $1,234.56 Claim Type: Auto Amount: 7.00''
       = Inr \<lparr>p_claim_type = Some ''Home'', p_amount = Some (123456 / 100)\<rparr>"
  using parse_total [of tx] parse_reference_1 parse_reference_2 re_search_leftmost [of pre grp tx]
    parse_recase [of f tx] parse_reference_3
  by blast

theorem parse_claim_text_total_witness:
  "same_letter lower_char
   \<and> parse_claim_text (map lower_char ''Claim Type: Auto'')
       = Inr \<lparr>p_claim_type = Some ''auto'', p_amount = None\<rparr>"
proof -
  have "parse_claim_text (map lower_char ''Claim Type: Auto'')
          = map_sum id (\<lambda>r. r\<lparr>p_claim_type := map_option (map lower_char) (p_claim_type r)\<rparr>)
              (parse_claim_text ''Claim Type: Auto'')"
    using parse_claim_text_total [of "''Claim Type: Auto''" claim_type_pre claim_type_grp lower_char]
      same_letter_lower by blast
  then show ?thesis
    using same_letter_lower parse_lower_auto by simp
qed

text \<open>
  Claim C10. An amount that the field parser returns is never negative: \<open>float\<close> would
  read a minus sign, but the pattern does not let one into the group. A text whose only
  figure carries a minus sign yields no amount; a later unsigned figure is found.
\<close>

theorem parse_amount_never_negative:
  "(parse_claim_text tx = Inr r \<and> p_amount r = Some a \<longrightarrow> 0 \<le> a)
   \<and> py_float ''-120.00'' = Inr (- 120)
   \<and> parse_claim_text ''Amount: -120.00'' = Inr \<lparr>p_claim_type = None, p_amount = None\<rparr>
   \<and> parse_claim_text ''Amount: -120.00 Amount: 35.50''
       = Inr \<lparr>p_claim_type = None, p_amount = Some (3550 / 100)\<rparr>"
  using parse_amount_nonneg [of tx r a] py_float_minus parse_minus_1 parse_minus_2
  by blast

theorem parse_amount_never_negative_witness:
  "parse_claim_text ''Amount: 35.50'' = Inr \<lparr>p_claim_type = None, p_amount = Some (3550 / 100)\<rparr>
   \<and> (0::rat) \<le> 3550 / 100"
  using parse_amount_never_negative
    [of "''Amount: 35.50''" "\<lparr>p_claim_type = None, p_amount = Some (3550 / 100)\<rparr>" "3550 / 100"]
    parse_plain_amount
  by simp

section \<open>Extraction\<close>




lemma sample_txt: "extract_text_from_file sample_env ''uploads/doc.txt'' = Inr ''Claim Type: Auto''"
  by code_simp

lemma sample_pdf:
  "extract_text_from_file sample_env ''uploads/doc.pdf''
     = Inl (HTTPException 500 (Text ''Failed to extract text: Unable to get page count''))"
  by code_simp

lemma sample_docx:
  "extract_text_from_file sample_env ''uploads/claim.docx''
     = Inl (HTTPException 500 (Text ''Failed to extract text: Unsupported file type: .docx''))"
  by code_simp

lemma sample_files_same:
  "files sample_env ''uploads/doc.txt'' = files sample_env ''uploads/doc.pdf''"
  by (simp add: sample_env_def)



text \<open>
  Claim C5, as stated, says that the sniffed content type selects the method of
  extraction and that the file name plays no part. The code looks at nothing but the
  extension of the path: the same bytes stored as \<open>doc.txt\<close> and as \<open>doc.pdf\<close> are decoded
  as text in one case and handed to the PDF rasterizer, which rejects them, in the other.
\<close>

theorem extraction_ignores_content_type_counterexample:
  "files sample_env ''uploads/doc.txt'' = files sample_env ''uploads/doc.pdf''
   \<and> extract_text_from_file sample_env ''uploads/doc.txt'' = Inr ''Claim Type: Auto''
   \<and> extract_text_from_file sample_env ''uploads/doc.pdf''
       = Inl (HTTPException 500 (Text ''Failed to extract text: Unable to get page count''))"
  using sample_files_same sample_txt sample_pdf by simp

text \<open>
  Claim C5, amended. The method of extraction is selected by the extension of the
  document's path, lower-cased: two paths with the same lower-cased extension and the
  same stored content extract identically, whatever the content is. The extensions
  \<open>.png\<close>, \<open>.jpg\<close> and \<open>.jpeg\<close> select the OCR of the opened image, \<open>.pdf\<close> selects
  rasterizing and the OCR of every page, \<open>.txt\<close> selects decoding as text.
\<close>

theorem extraction_selected_by_extension:
  "(lower (splitext_ext (path_seps env) p) = lower (splitext_ext (path_seps env) q)
      \<and> files env p = files env q
      \<longrightarrow> extract_text_from_file env p = extract_text_from_file env q)
   \<and> (lower (splitext_ext (path_seps env) p) \<in> set [''.png'', ''.jpg'', ''.jpeg'']
        \<longrightarrow> try_extract env p
              = bind_exn (read_file env p) (\<lambda>content.
                bind_exn (image_open env content) (image_to_string env)))
   \<and> (lower (splitext_ext (path_seps env) p) = ''.pdf''
        \<longrightarrow> try_extract env p
              = bind_exn (read_file env p) (\<lambda>content.
                bind_exn (convert_from_path env content) (\<lambda>pages.
                bind_exn (ocr_pages (image_to_string env) pages) (\<lambda>texts.
                Inr (join ''\<newline>'' texts)))))
   \<and> (lower (splitext_ext (path_seps env) p) = ''.txt''
        \<longrightarrow> try_extract env p = bind_exn (read_file env p) (decode_utf8 env))"
proof (intro conjI impI)
  assume a: "lower (splitext_ext (path_seps env) p) = lower (splitext_ext (path_seps env) q)
             \<and> files env p = files env q"
  then have rf: "read_file env p = read_file env q"
    by (simp add: read_file_def)
  from a have ext: "lower (splitext_ext (path_seps env) p) = lower (splitext_ext (path_seps env) q)"
    by simp
  have "try_extract env p = try_extract env q"
    unfolding try_extract_def ext rf ..
  then show "extract_text_from_file env p = extract_text_from_file env q"
    by (simp add: extract_text_from_file_def)
next
  assume "lower (splitext_ext (path_seps env) p) \<in> set [''.png'', ''.jpg'', ''.jpeg'']"
  then show "try_extract env p
              = bind_exn (read_file env p) (\<lambda>content.
                bind_exn (image_open env content) (image_to_string env))"
    by (simp add: try_extract_def)
next
  assume "lower (splitext_ext (path_seps env) p) = ''.pdf''"
  then show "try_extract env p
              = bind_exn (read_file env p) (\<lambda>content.
                bind_exn (convert_from_path env content) (\<lambda>pages.
                bind_exn (ocr_pages (image_to_string env) pages) (\<lambda>texts.
                Inr (join ''\<newline>'' texts))))"
    by (simp add: try_extract_def)
next
  assume "lower (splitext_ext (path_seps env) p) = ''.txt''"
  then show "try_extract env p = bind_exn (read_file env p) (decode_utf8 env)"
    by (simp add: try_extract_def)
qed

theorem extraction_selected_by_extension_witness:
  "lower (splitext_ext (path_seps sample_env) ''uploads/DOC.TXT'')
     = lower (splitext_ext (path_seps sample_env) ''uploads/doc.txt'')
   \<and> files sample_env ''uploads/DOC.TXT'' = files sample_env ''uploads/doc.txt''
   \<and> extract_text_from_file sample_env ''uploads/DOC.TXT''
       = extract_text_from_file sample_env ''uploads/doc.txt''
   \<and> try_extract sample_env ''uploads/DOC.TXT''
       = bind_exn (read_file sample_env ''uploads/DOC.TXT'') (decode_utf8 sample_env)"
proof -
  have h0: "lower (splitext_ext (path_seps sample_env) ''uploads/DOC.TXT'') = ''.txt''"
    by code_simp
  have h1: "lower (splitext_ext (path_seps sample_env) ''uploads/DOC.TXT'')
              = lower (splitext_ext (path_seps sample_env) ''uploads/doc.txt'')"
    by code_simp
  have h2: "files sample_env ''uploads/DOC.TXT'' = files sample_env ''uploads/doc.txt''"
    by (simp add: sample_env_def)
  from extraction_selected_by_extension [of sample_env "''uploads/DOC.TXT''" "''uploads/doc.txt''"]
    h0 h1 h2
  show ?thesis by blast
qed

lemma extract_never_400: "extract_text_from_file env file_path \<noteq> Inl (HTTPException 400 d)"
  by (simp add: extract_text_from_file_def split: sum.splits)

text \<open>
  Claim C6 says that an unsupported kind and an engine failure surface as two distinct
  kinds of error. The code raises its 400 for the unsupported kind inside the \<open>try\<close> whose
  handler catches every exception, so both leave the extractor as the same
  \<open>HTTPException\<close> with status 500, and no call of the extractor raises the 400.
\<close>

theorem unsupported_kind_surfaces_as_engine_failure:
  "extract_text_from_file sample_env ''uploads/claim.docx''
     = Inl (HTTPException 500 (Text ''Failed to extract text: Unsupported file type: .docx''))
   \<and> extract_text_from_file sample_env ''uploads/doc.pdf''
       = Inl (HTTPException 500 (Text ''Failed to extract text: Unable to get page count''))
   \<and> extract_text_from_file env file_path \<noteq> Inl (HTTPException 400 d)"
  using sample_docx sample_pdf extract_never_400 [of env file_path d] by simp

section \<open>The analysis and its commits\<close>

lemma claim_type_nonempty:
  assumes "re_search claim_type_pre claim_type_grp tx = Some g"
  shows "g \<noteq> []"
proof -
  from re_search_Some [OF assms] obtain s where "match_here claim_type_pre claim_type_grp s = Some g" ..
  from match_here_Some [OF this] obtain s1 s2 where s2: "s2 \<in> set (rests claim_type_grp s1)"
    and g: "g = take (length s1 - length s2) s1" by blast
  from s2 have "s2 \<in> set (item_rests (Plus Word) s1)"
    by (simp add: claim_type_grp_def)
  from plus_sound [OF this] obtain w where "s1 = w @ s2" "w \<noteq> []" by blast
  with g show ?thesis by simp
qed

lemma parse_claim_type_is:
  "parse_claim_text tx = Inr parsed
     \<Longrightarrow> p_claim_type parsed = re_search claim_type_pre claim_type_grp tx"
  by (auto simp: parse_claim_text_def Let_def split: option.splits sum.splits)

lemma parse_claim_type_nonempty:
  "parse_claim_text tx = Inr parsed \<Longrightarrow> p_claim_type parsed \<noteq> Some []"
  using claim_type_nonempty [of tx "[]"] parse_claim_type_is [of tx parsed]
  by auto

lemma try_analyze_fails:
  "extract_text_from_file env path = Inl e \<Longrightarrow> try_analyze env cid c path db = (Inl e, db)"
  by (simp add: try_analyze_def)

lemma try_analyze_succeeds:
  assumes "extract_text_from_file env path = Inr tx" "parse_claim_text tx = Inr parsed"
  shows "try_analyze env cid c path db =
           (Inr \<lparr>claim_id = cid, source_file = path, extracted_text = tx\<rparr>,
            if p_claim_type parsed = None \<and> p_amount parsed = None
            then db_commit cid (c\<lparr>ocr_text := Some tx\<rparr>) db
            else db_commit cid (apply_fields parsed (c\<lparr>ocr_text := Some tx\<rparr>))
                   (db_commit cid (c\<lparr>ocr_text := Some tx\<rparr>) db))"
proof -
  from parse_claim_type_nonempty [OF assms(2)] have ne: "p_claim_type parsed \<noteq> Some []" .
  show ?thesis
  proof (cases "p_claim_type parsed")
    case None
    then show ?thesis
      using assms by (cases "p_amount parsed") (simp_all add: try_analyze_def apply_fields_def Let_def)
  next
    case (Some t)
    with ne have "t \<noteq> []" by simp
    with Some show ?thesis
      using assms by (cases "p_amount parsed") (simp_all add: try_analyze_def apply_fields_def Let_def)
  qed
qed


lemma analyze_not_found:
  "claims db cid = None \<Longrightarrow> \<exists>d. analyze_claim env cid db = (Inl (HTTPException 404 d), db)"
  by (simp add: analyze_claim_def get_claim_or_404_def)

lemma analyze_no_document:
  assumes "claims db cid = Some c"
    and "document_path c = None \<or> document_path c = Some [] \<or>
         (\<exists>path. document_path c = Some path \<and> files env path = None)"
  shows "\<exists>d. analyze_claim env cid db = (Inl (HTTPException 404 d), db)"
  using assms by (auto simp: analyze_claim_def get_claim_or_404_def)

lemma analyze_extraction_fails:
  assumes "claims db cid = Some c" "document_path c = Some path" "path \<noteq> []"
    "files env path \<noteq> None" "extract_text_from_file env path = Inl e"
  shows "analyze_claim env cid db
           = (Inl (HTTPException 500 (Text
                ''OCR analysis failed. Please check the uploaded file format or contents.'')), db)"
  using assms by (simp add: analyze_claim_def get_claim_or_404_def try_analyze_fails)

lemma analyze_succeeds:
  assumes "claims db cid = Some c" "document_path c = Some path" "path \<noteq> []"
    "files env path \<noteq> None" "extract_text_from_file env path = Inr tx"
    "parse_claim_text tx = Inr parsed"
  shows "analyze_claim env cid db =
           (Inr \<lparr>claim_id = cid, source_file = path, extracted_text = tx\<rparr>,
            if p_claim_type parsed = None \<and> p_amount parsed = None
            then db_commit cid (c\<lparr>ocr_text := Some tx\<rparr>) db
            else db_commit cid (apply_fields parsed (c\<lparr>ocr_text := Some tx\<rparr>))
                   (db_commit cid (c\<lparr>ocr_text := Some tx\<rparr>) db))"
  using assms(1-4) try_analyze_succeeds [OF assms(5,6), of cid c db]
  by (simp add: analyze_claim_def get_claim_or_404_def)

lemma apply_fields_none:
  "p_claim_type parsed = None \<Longrightarrow> p_amount parsed = None \<Longrightarrow> apply_fields parsed c = c"
  by (simp add: apply_fields_def)

lemma analyze_succeeds_final:
  assumes "claims db cid = Some c" "document_path c = Some path" "path \<noteq> []"
    "files env path \<noteq> None" "extract_text_from_file env path = Inr tx"
    "parse_claim_text tx = Inr parsed"
  shows "fst (analyze_claim env cid db) = Inr \<lparr>claim_id = cid, source_file = path, extracted_text = tx\<rparr>"
    and "claims (snd (analyze_claim env cid db)) = (claims db)(cid \<mapsto> final_row parsed tx c)"
  using analyze_succeeds [OF assms]
  by (auto simp: db_commit_def final_row_def apply_fields_none)

lemma final_row_again: "final_row parsed tx (final_row parsed tx c) = final_row parsed tx c"
  by (cases "p_claim_type parsed"; cases "p_amount parsed")
     (simp_all add: final_row_def apply_fields_def)

lemma final_row_path: "document_path (final_row parsed tx c) = document_path c"
  by (simp add: final_row_def apply_fields_def)

lemma sample_note: "extract_text_from_file sample_env ''uploads/note.txt'' = Inr ''nothing to find''"
  by code_simp

lemma parse_note:
  "parse_claim_text ''nothing to find'' = Inr \<lparr>p_claim_type = None, p_amount = None\<rparr>"
  by code_simp

text \<open>
  Claim C1. For a claim whose document exists: when extraction succeeds, the parser
  returns, the first commit writes the claim with the raw text and its old claim type
  and amount; when no field was found this is the only commit; when a field was found, a
  second commit follows and writes the fields found. When extraction fails, the database
  is as before: no commit, and raw text, claim type and amount keep their values. The
  statement gives the sequence of committed rows and the table after the run: the row of
  the claim holds the raw text, and the fields found, and every other row is as before.
\<close>

theorem analyze_two_phase_commit:
  assumes "claims db cid = Some c" and "document_path c = Some path" and "path \<noteq> []"
    and "files env path \<noteq> None"
  shows "(\<forall>tx. extract_text_from_file env path = Inr tx \<longrightarrow>
            (\<exists>parsed. parse_claim_text tx = Inr parsed
               \<and> fst (analyze_claim env cid db)
                   = Inr \<lparr>claim_id = cid, source_file = path, extracted_text = tx\<rparr>
               \<and> (if p_claim_type parsed = None \<and> p_amount parsed = None
                    then commits (snd (analyze_claim env cid db))
                           = commits db @ [(cid, c\<lparr>ocr_text := Some tx\<rparr>)]
                         \<and> claims (snd (analyze_claim env cid db))
                           = (claims db)(cid \<mapsto> c\<lparr>ocr_text := Some tx\<rparr>)
                    else commits (snd (analyze_claim env cid db))
                           = commits db
                             @ [(cid, c\<lparr>ocr_text := Some tx\<rparr>),
                                (cid, c\<lparr>ocr_text := Some tx,
                                        claim_type := (case p_claim_type parsed of
                                                         None \<Rightarrow> claim_type c | Some t \<Rightarrow> t),
                                        amount := (case p_amount parsed of
                                                     None \<Rightarrow> amount c | Some a \<Rightarrow> a)\<rparr>)]
                         \<and> claims (snd (analyze_claim env cid db))
                           = (claims db)(cid \<mapsto>
                                c\<lparr>ocr_text := Some tx,
                                  claim_type := (case p_claim_type parsed of
                                                   None \<Rightarrow> claim_type c | Some t \<Rightarrow> t),
                                  amount := (case p_amount parsed of
                                               None \<Rightarrow> amount c | Some a \<Rightarrow> a)\<rparr>))))
         \<and> (\<forall>e. extract_text_from_file env path = Inl e \<longrightarrow>
               commits (snd (analyze_claim env cid db)) = commits db
               \<and> claims (snd (analyze_claim env cid db)) = claims db
               \<and> claims (snd (analyze_claim env cid db)) cid = Some c
               \<and> snd (analyze_claim env cid db) = db
               \<and> (\<exists>d. fst (analyze_claim env cid db) = Inl (HTTPException 500 d)))"
proof (intro conjI allI impI)
  fix tx
  assume ex: "extract_text_from_file env path = Inr tx"
  from parse_total [of tx] obtain parsed where p: "parse_claim_text tx = Inr parsed" by blast
  note run = analyze_succeeds [OF assms ex p]
  have "fst (analyze_claim env cid db)
          = Inr \<lparr>claim_id = cid, source_file = path, extracted_text = tx\<rparr>"
    using run by simp
  moreover have "if p_claim_type parsed = None \<and> p_amount parsed = None
      then commits (snd (analyze_claim env cid db)) = commits db @ [(cid, c\<lparr>ocr_text := Some tx\<rparr>)]
           \<and> claims (snd (analyze_claim env cid db)) = (claims db)(cid \<mapsto> c\<lparr>ocr_text := Some tx\<rparr>)
      else commits (snd (analyze_claim env cid db))
             = commits db
               @ [(cid, c\<lparr>ocr_text := Some tx\<rparr>),
                  (cid, c\<lparr>ocr_text := Some tx,
                          claim_type := (case p_claim_type parsed of
                                           None \<Rightarrow> claim_type c | Some t \<Rightarrow> t),
                          amount := (case p_amount parsed of
                                       None \<Rightarrow> amount c | Some a \<Rightarrow> a)\<rparr>)]
           \<and> claims (snd (analyze_claim env cid db))
             = (claims db)(cid \<mapsto>
                  c\<lparr>ocr_text := Some tx,
                    claim_type := (case p_claim_type parsed of
                                     None \<Rightarrow> claim_type c | Some t \<Rightarrow> t),
                    amount := (case p_amount parsed of
                                 None \<Rightarrow> amount c | Some a \<Rightarrow> a)\<rparr>)"
    using run
    by (cases "p_claim_type parsed"; cases "p_amount parsed")
       (simp_all add: db_commit_def apply_fields_def)
  ultimately show "\<exists>parsed. parse_claim_text tx = Inr parsed
               \<and> fst (analyze_claim env cid db)
                   = Inr \<lparr>claim_id = cid, source_file = path, extracted_text = tx\<rparr>
               \<and> (if p_claim_type parsed = None \<and> p_amount parsed = None
                    then commits (snd (analyze_claim env cid db))
                           = commits db @ [(cid, c\<lparr>ocr_text := Some tx\<rparr>)]
                         \<and> claims (snd (analyze_claim env cid db))
                           = (claims db)(cid \<mapsto> c\<lparr>ocr_text := Some tx\<rparr>)
                    else commits (snd (analyze_claim env cid db))
                           = commits db
                             @ [(cid, c\<lparr>ocr_text := Some tx\<rparr>),
                                (cid, c\<lparr>ocr_text := Some tx,
                                        claim_type := (case p_claim_type parsed of
                                                         None \<Rightarrow> claim_type c | Some t \<Rightarrow> t),
                                        amount := (case p_amount parsed of
                                                     None \<Rightarrow> amount c | Some a \<Rightarrow> a)\<rparr>)]
                         \<and> claims (snd (analyze_claim env cid db))
                           = (claims db)(cid \<mapsto>
                                c\<lparr>ocr_text := Some tx,
                                  claim_type := (case p_claim_type parsed of
                                                   None \<Rightarrow> claim_type c | Some t \<Rightarrow> t),
                                  amount := (case p_amount parsed of
                                               None \<Rightarrow> amount c | Some a \<Rightarrow> a)\<rparr>))"
    using p by (intro exI [of _ parsed]) blast
next
  fix e
  assume f: "extract_text_from_file env path = Inl e"
  from analyze_extraction_fails [OF assms f]
  show "commits (snd (analyze_claim env cid db)) = commits db" by simp
next
  fix e
  assume f: "extract_text_from_file env path = Inl e"
  from analyze_extraction_fails [OF assms f]
  show "claims (snd (analyze_claim env cid db)) = claims db" by simp
next
  fix e
  assume f: "extract_text_from_file env path = Inl e"
  from analyze_extraction_fails [OF assms f] assms(1)
  show "claims (snd (analyze_claim env cid db)) cid = Some c" by simp
next
  fix e
  assume f: "extract_text_from_file env path = Inl e"
  from analyze_extraction_fails [OF assms f]
  show "snd (analyze_claim env cid db) = db" by simp
next
  fix e
  assume f: "extract_text_from_file env path = Inl e"
  from analyze_extraction_fails [OF assms f]
  show "\<exists>d. fst (analyze_claim env cid db) = Inl (HTTPException 500 d)" by simp
qed


theorem analyze_two_phase_commit_witness:
  "claims (snd (analyze_claim sample_env 1 sample_db)) 1
     = Some (sample_claim\<lparr>ocr_text := Some ''Claim Type: Auto'', claim_type := ''Auto''\<rparr>)
   \<and> commits (snd (analyze_claim sample_env 1 sample_db))
       = [(1, sample_claim\<lparr>ocr_text := Some ''Claim Type: Auto''\<rparr>),
          (1, sample_claim\<lparr>ocr_text := Some ''Claim Type: Auto'', claim_type := ''Auto''\<rparr>)]
   \<and> claims (snd (analyze_claim sample_env 3 sample_db)) 3
       = Some (sample_claim\<lparr>document_path := Some ''uploads/note.txt'',
                            ocr_text := Some ''nothing to find''\<rparr>)
   \<and> commits (snd (analyze_claim sample_env 3 sample_db))
       = [(3, sample_claim\<lparr>document_path := Some ''uploads/note.txt'',
                            ocr_text := Some ''nothing to find''\<rparr>)]
   \<and> claims (snd (analyze_claim sample_env 2 sample_db)) 2
       = Some (sample_claim\<lparr>document_path := Some ''uploads/doc.pdf''\<rparr>)
   \<and> commits (snd (analyze_claim sample_env 2 sample_db)) = []"
proof -
  have h1: "claims sample_db 1 = Some sample_claim"
    "document_path sample_claim = Some ''uploads/doc.txt''"
    "''uploads/doc.txt'' \<noteq> []"
    "files sample_env ''uploads/doc.txt'' \<noteq> None"
    by (simp_all add: sample_db_def sample_claim_def sample_env_def)
  from analyze_two_phase_commit [OF h1] sample_txt
  obtain parsed where p: "parse_claim_text ''Claim Type: Auto'' = Inr parsed"
    and r: "if p_claim_type parsed = None \<and> p_amount parsed = None
      then commits (snd (analyze_claim sample_env 1 sample_db))
             = commits sample_db @ [(1, sample_claim\<lparr>ocr_text := Some ''Claim Type: Auto''\<rparr>)]
           \<and> claims (snd (analyze_claim sample_env 1 sample_db))
             = (claims sample_db)(1 \<mapsto> sample_claim\<lparr>ocr_text := Some ''Claim Type: Auto''\<rparr>)
      else commits (snd (analyze_claim sample_env 1 sample_db))
             = commits sample_db
               @ [(1, sample_claim\<lparr>ocr_text := Some ''Claim Type: Auto''\<rparr>),
                  (1, sample_claim\<lparr>ocr_text := Some ''Claim Type: Auto'',
                          claim_type := (case p_claim_type parsed of
                                           None \<Rightarrow> claim_type sample_claim | Some t \<Rightarrow> t),
                          amount := (case p_amount parsed of
                                       None \<Rightarrow> amount sample_claim | Some a \<Rightarrow> a)\<rparr>)]
           \<and> claims (snd (analyze_claim sample_env 1 sample_db))
             = (claims sample_db)(1 \<mapsto>
                  sample_claim\<lparr>ocr_text := Some ''Claim Type: Auto'',
                    claim_type := (case p_claim_type parsed of
                                     None \<Rightarrow> claim_type sample_claim | Some t \<Rightarrow> t),
                    amount := (case p_amount parsed of
                                 None \<Rightarrow> amount sample_claim | Some a \<Rightarrow> a)\<rparr>)"
    by blast
  from p have parsed: "parsed = \<lparr>p_claim_type = Some ''Auto'', p_amount = None\<rparr>"
    by (simp add: parse_reference_2)
  from r have a: "claims (snd (analyze_claim sample_env 1 sample_db)) 1
       = Some (sample_claim\<lparr>ocr_text := Some ''Claim Type: Auto'', claim_type := ''Auto''\<rparr>)
     \<and> commits (snd (analyze_claim sample_env 1 sample_db))
       = [(1, sample_claim\<lparr>ocr_text := Some ''Claim Type: Auto''\<rparr>),
          (1, sample_claim\<lparr>ocr_text := Some ''Claim Type: Auto'', claim_type := ''Auto''\<rparr>)]"
    by (simp add: parsed sample_db_def sample_claim_def)
  let ?c3 = "sample_claim\<lparr>document_path := Some ''uploads/note.txt''\<rparr>"
  have h3: "claims sample_db 3 = Some ?c3"
    "document_path ?c3 = Some ''uploads/note.txt''"
    "''uploads/note.txt'' \<noteq> []"
    "files sample_env ''uploads/note.txt'' \<noteq> None"
    by (simp_all add: sample_db_def sample_claim_def sample_env_def)
  from analyze_two_phase_commit [OF h3] sample_note
  obtain parsed3 where p3: "parse_claim_text ''nothing to find'' = Inr parsed3"
    and r3: "if p_claim_type parsed3 = None \<and> p_amount parsed3 = None
      then commits (snd (analyze_claim sample_env 3 sample_db))
             = commits sample_db @ [(3, ?c3\<lparr>ocr_text := Some ''nothing to find''\<rparr>)]
           \<and> claims (snd (analyze_claim sample_env 3 sample_db))
             = (claims sample_db)(3 \<mapsto> ?c3\<lparr>ocr_text := Some ''nothing to find''\<rparr>)
      else commits (snd (analyze_claim sample_env 3 sample_db))
             = commits sample_db
               @ [(3, ?c3\<lparr>ocr_text := Some ''nothing to find''\<rparr>),
                  (3, ?c3\<lparr>ocr_text := Some ''nothing to find'',
                          claim_type := (case p_claim_type parsed3 of
                                           None \<Rightarrow> claim_type ?c3 | Some t \<Rightarrow> t),
                          amount := (case p_amount parsed3 of
                                       None \<Rightarrow> amount ?c3 | Some a \<Rightarrow> a)\<rparr>)]
           \<and> claims (snd (analyze_claim sample_env 3 sample_db))
             = (claims sample_db)(3 \<mapsto>
                  ?c3\<lparr>ocr_text := Some ''nothing to find'',
                    claim_type := (case p_claim_type parsed3 of
                                     None \<Rightarrow> claim_type ?c3 | Some t \<Rightarrow> t),
                    amount := (case p_amount parsed3 of
                                 None \<Rightarrow> amount ?c3 | Some a \<Rightarrow> a)\<rparr>)"
    by blast
  from p3 have parsed3: "parsed3 = \<lparr>p_claim_type = None, p_amount = None\<rparr>"
    by (simp add: parse_note)
  from r3 have b: "claims (snd (analyze_claim sample_env 3 sample_db)) 3
       = Some (sample_claim\<lparr>document_path := Some ''uploads/note.txt'',
                            ocr_text := Some ''nothing to find''\<rparr>)
     \<and> commits (snd (analyze_claim sample_env 3 sample_db))
       = [(3, sample_claim\<lparr>document_path := Some ''uploads/note.txt'',
                            ocr_text := Some ''nothing to find''\<rparr>)]"
    by (simp add: parsed3 sample_db_def)
  let ?c2 = "sample_claim\<lparr>document_path := Some ''uploads/doc.pdf''\<rparr>"
  have h2: "claims sample_db 2 = Some ?c2"
    "document_path ?c2 = Some ''uploads/doc.pdf''"
    "''uploads/doc.pdf'' \<noteq> []"
    "files sample_env ''uploads/doc.pdf'' \<noteq> None"
    by (simp_all add: sample_db_def sample_claim_def sample_env_def)
  from analyze_two_phase_commit [OF h2] sample_pdf
  have "commits (snd (analyze_claim sample_env 2 sample_db)) = commits sample_db
        \<and> claims (snd (analyze_claim sample_env 2 sample_db)) 2 = Some ?c2"
    by blast
  then have c: "claims (snd (analyze_claim sample_env 2 sample_db)) 2 = Some ?c2
                \<and> commits (snd (analyze_claim sample_env 2 sample_db)) = []"
    by (simp add: sample_db_def)
  from a b c show ?thesis by blast
qed

text \<open>
  Claim C9. Running the analysis a second time, in the same environment, leaves the
  table of claims as the first run left it, and answers as the first run did.
\<close>

theorem analyze_twice_same_as_once:
  "claims (snd (analyze_claim env cid (snd (analyze_claim env cid db))))
     = claims (snd (analyze_claim env cid db))
   \<and> fst (analyze_claim env cid (snd (analyze_claim env cid db))) = fst (analyze_claim env cid db)"
proof (cases "claims db cid")
  case None
  from analyze_not_found [OF None, of env] obtain d where
    "analyze_claim env cid db = (Inl (HTTPException 404 d), db)" ..
  then show ?thesis by simp
next
  case (Some c)
  show ?thesis
  proof (cases "document_path c = None \<or> document_path c = Some [] \<or>
         (\<exists>path. document_path c = Some path \<and> files env path = None)")
    case True
    from analyze_no_document [OF Some True] obtain d where
      "analyze_claim env cid db = (Inl (HTTPException 404 d), db)" ..
    then show ?thesis by simp
  next
    case False
    then obtain path where path: "document_path c = Some path" "path \<noteq> []" "files env path \<noteq> None"
      by (cases "document_path c") auto
    show ?thesis
    proof (cases "extract_text_from_file env path")
      case (Inl e)
      from analyze_extraction_fails [OF Some path Inl] show ?thesis by simp
    next
      case (Inr tx)
      from parse_total [of tx] obtain parsed where p: "parse_claim_text tx = Inr parsed" by blast
      let ?db1 = "snd (analyze_claim env cid db)"
      let ?c1 = "final_row parsed tx c"
      note once = analyze_succeeds_final [OF Some path Inr p]
      from once(2) have row: "claims ?db1 cid = Some ?c1" by simp
      from path(1) have path1: "document_path ?c1 = Some path"
        by (simp add: final_row_path)
      note twice = analyze_succeeds_final [OF row path1 path(2,3) Inr p]
      from twice(2) once(2) have "claims (snd (analyze_claim env cid ?db1)) = claims ?db1"
        by (simp add: final_row_again)
      with twice(1) once(1) show ?thesis by simp
    qed
  qed
qed

theorem analyze_twice_same_as_once_witness:
  "claims (snd (analyze_claim sample_env 1 (snd (analyze_claim sample_env 1 sample_db)))) 1
     = Some (sample_claim\<lparr>ocr_text := Some ''Claim Type: Auto'', claim_type := ''Auto''\<rparr>)"
proof -
  have "claims sample_db 1 = Some sample_claim"
    and "document_path sample_claim = Some ''uploads/doc.txt''"
    and "''uploads/doc.txt'' \<noteq> []"
    and "files sample_env ''uploads/doc.txt'' \<noteq> None"
    by (simp_all add: sample_db_def sample_claim_def sample_env_def)
  from analyze_succeeds_final(2) [OF this sample_txt parse_reference_2]
  have "claims (snd (analyze_claim sample_env 1 sample_db)) 1
          = Some (sample_claim\<lparr>ocr_text := Some ''Claim Type: Auto'', claim_type := ''Auto''\<rparr>)"
    by (simp add: final_row_def apply_fields_def sample_claim_def)
  with analyze_twice_same_as_once [of sample_env 1 sample_db] show ?thesis
    by simp
qed

section \<open>The rate limiter\<close>

lemma rate_limiter_step:
  "rate_limiter host key now stamp st =
     (if RATE_LIMIT \<le> length (recent now (call_log st (rate_key_of host key)))
      then (Inl AttributeError,
            with_log st (rate_key_of host key) (recent now (call_log st (rate_key_of host key))))
      else (Inr (),
            with_log st (rate_key_of host key)
              (recent now (call_log st (rate_key_of host key)) @ [now])))"
  by (simp add: rate_limiter_def rate_key_of_def recent_def with_log_def datetime_timezone_def Let_def)

lemma call_log_with_log: "call_log (with_log st k stamps) k = stamps"
  by (simp add: with_log_def)

lemma call_log_with_log_other: "k' \<noteq> k \<Longrightarrow> call_log (with_log st k stamps) k' = call_log st k'"
  by (simp add: with_log_def)

lemma block_log_with_log: "block_log (with_log st k stamps) = block_log st"
  by (simp add: with_log_def)

lemma recent_all: "(\<And>t. t \<in> set stamps \<Longrightarrow> now - 60 < t) \<Longrightarrow> recent now stamps = stamps"
  by (simp add: recent_def)

lemma serve_Cons:
  "fst (serve host key (now # later) st)
     = fst (rate_limiter host key now [] st)
       # fst (serve host key later (snd (rate_limiter host key now [] st)))"
  "snd (serve host key (now # later) st)
     = snd (serve host key later (snd (rate_limiter host key now [] st)))"
  by (simp_all split: prod.splits)

lemma map_upt_Cons:
  "map f [0..<Suc n] = f 0 # map (\<lambda>i. f (Suc i)) [0..<n]"
  by (simp add: upt_conv_Cons map_Suc_upt [symmetric] del: upt_Suc)

text \<open>A caller whose stored timestamps and requests all lie within sixty seconds of each request.\<close>

lemma serve_burst:
  assumes "\<And>u t. u \<in> set nows \<Longrightarrow> t \<in> set (call_log st (rate_key_of host key)) \<union> set nows
             \<Longrightarrow> u - 60 < t"
  shows "fst (serve host key nows st)
           = map (\<lambda>i. if length (call_log st (rate_key_of host key)) + i < RATE_LIMIT
                       then Inr () else Inl AttributeError) [0..<length nows]"
  using assms
proof (induction nows arbitrary: st)
  case Nil
  then show ?case by simp
next
  case (Cons now later)
  let ?k = "rate_key_of host key"
  let ?stamps = "call_log st ?k"
  let ?f = "\<lambda>n i. if n + i < RATE_LIMIT then Inr () else (Inl AttributeError :: exn + unit)"
  have rec: "recent now ?stamps = ?stamps"
    by (rule recent_all) (use Cons.prems in auto)
  show ?case
  proof (cases "RATE_LIMIT \<le> length ?stamps")
    case True
    let ?st1 = "with_log st ?k ?stamps"
    have step: "rate_limiter host key now [] st = (Inl AttributeError, ?st1)"
      using True by (simp add: rate_limiter_step rec)
    have ih: "fst (serve host key later ?st1) = map (?f (length (call_log ?st1 ?k))) [0..<length later]"
      by (rule Cons.IH) (use Cons.prems in \<open>auto simp: call_log_with_log\<close>)
    have "fst (serve host key (now # later) st) = Inl AttributeError # fst (serve host key later ?st1)"
      by (simp only: serve_Cons step fst_conv snd_conv)
    also have "\<dots> = Inl AttributeError # map (?f (length ?stamps)) [0..<length later]"
      by (simp only: ih call_log_with_log)
    also have "\<dots> = map (?f (length ?stamps)) [0..<length (now # later)]"
      using True by (simp add: map_upt_Cons del: upt_Suc)
    finally show ?thesis .
  next
    case False
    let ?st1 = "with_log st ?k (?stamps @ [now])"
    have step: "rate_limiter host key now [] st = (Inr (), ?st1)"
      using False by (simp add: rate_limiter_step rec)
    have ih: "fst (serve host key later ?st1) = map (?f (length (call_log ?st1 ?k))) [0..<length later]"
      by (rule Cons.IH) (use Cons.prems in \<open>auto simp: call_log_with_log\<close>)
    have "fst (serve host key (now # later) st) = Inr () # fst (serve host key later ?st1)"
      by (simp only: serve_Cons step fst_conv snd_conv)
    also have "\<dots> = Inr () # map (?f (Suc (length ?stamps))) [0..<length later]"
      by (simp only: ih call_log_with_log length_append_singleton)
    also have "\<dots> = map (?f (length ?stamps)) [0..<length (now # later)]"
      using False by (simp add: map_upt_Cons del: upt_Suc)
    finally show ?thesis .
  qed
qed


lemma recent_recent: "recent now (recent now stamps) = recent now stamps"
  by (simp add: recent_def)

lemma with_log_twice: "with_log (with_log st k a) k b = with_log st k b"
  by (simp add: with_log_def)

lemma rate_limiter_pruned:
  "rate_limiter host key now stamp
     (with_log st (rate_key_of host key) (recent now (call_log st (rate_key_of host key))))
   = rate_limiter host key now stamp st"
  by (simp add: rate_limiter_step call_log_with_log recent_recent with_log_twice)

lemma serve_same_instant:
  "fst (serve host key (replicate n now) st)
     = map (\<lambda>i. if length (recent now (call_log st (rate_key_of host key))) + i < RATE_LIMIT
                 then Inr () else Inl AttributeError) [0..<n]"
proof (cases n)
  case 0
  then show ?thesis by simp
next
  case (Suc m)
  let ?k = "rate_key_of host key"
  let ?st0 = "with_log st ?k (recent now (call_log st ?k))"
  have "fst (serve host key (replicate n now) st) = fst (serve host key (replicate n now) ?st0)"
    by (simp only: Suc replicate_Suc serve_Cons rate_limiter_pruned)
  also have "\<dots> = map (\<lambda>i. if length (call_log ?st0 ?k) + i < RATE_LIMIT
                              then Inr () else Inl AttributeError) [0..<length (replicate n now)]"
    by (rule serve_burst) (auto simp: call_log_with_log recent_def)
  finally show ?thesis
    by (simp add: call_log_with_log)
qed

lemma allowed_iff:
  "(fst (rate_limiter host key now stamp st) = Inr ())
     = (length (recent now (call_log st (rate_key_of host key))) < RATE_LIMIT)"
  by (simp add: rate_limiter_step)

lemma log_after:
  "call_log (snd (rate_limiter host key now stamp st)) (rate_key_of host key)
     = recent now (call_log st (rate_key_of host key))
       @ (if fst (rate_limiter host key now stamp st) = Inr () then [now] else [])"
  by (simp add: rate_limiter_step call_log_with_log)

lemma log_other:
  "k' \<noteq> rate_key_of host key
     \<Longrightarrow> call_log (snd (rate_limiter host key now stamp st)) k' = call_log st k'"
  by (simp add: rate_limiter_step call_log_with_log_other)

lemma block_log_after:
  "block_log (snd (rate_limiter host key now stamp st)) = block_log st"
  by (simp add: rate_limiter_step block_log_with_log)

lemma never_429: "fst (rate_limiter host key now stamp st) \<noteq> Inl (HTTPException 429 d)"
  by (simp add: rate_limiter_step)

lemma full_window_oldest:
  assumes "length (call_log st (rate_key_of host key)) = RATE_LIMIT"
  shows "(fst (rate_limiter host key now stamp st) = Inr ())
           = (Min (set (call_log st (rate_key_of host key))) \<le> now - 60)"
proof -
  let ?stamps = "call_log st (rate_key_of host key)"
  from assms have ne: "set ?stamps \<noteq> {}"
    by (auto simp: RATE_LIMIT_def)
  have "(length (recent now ?stamps) < length ?stamps) = (\<exists>t \<in> set ?stamps. t \<le> now - 60)"
  proof
    assume "length (recent now ?stamps) < length ?stamps"
    then have "recent now ?stamps \<noteq> ?stamps" by auto
    then have "\<not> (\<forall>t \<in> set ?stamps. now - 60 < t)"
      using recent_all [of ?stamps now] by blast
    then show "\<exists>t \<in> set ?stamps. t \<le> now - 60"
      by (auto simp: not_less)
  next
    assume "\<exists>t \<in> set ?stamps. t \<le> now - 60"
    then obtain t where "t \<in> set ?stamps" "\<not> now - 60 < t" by auto
    then show "length (recent now ?stamps) < length ?stamps"
      unfolding recent_def by (rule length_filter_less)
  qed
  also have "\<dots> = (Min (set ?stamps) \<le> now - 60)"
    using ne by (simp add: Min_le_iff)
  finally show ?thesis
    by (simp add: allowed_iff assms)
qed

lemma burst_nth:
  assumes "\<forall>u \<in> set nows. \<forall>t \<in> set nows. u - 60 < t"
    and "call_log st (rate_key_of host key) = []" and "i < length nows"
  shows "(fst (serve host key nows st) ! i = Inr ()) = (i < RATE_LIMIT)"
proof -
  have "fst (serve host key nows st)
          = map (\<lambda>i. if length (call_log st (rate_key_of host key)) + i < RATE_LIMIT
                      then Inr () else Inl AttributeError) [0..<length nows]"
    by (rule serve_burst) (use assms(1,2) in auto)
  with assms(2,3) show ?thesis by simp
qed

lemma same_instant_nth:
  assumes "i < n"
  shows "(fst (serve host key (replicate n now) st) ! i = Inr ())
           = (length (recent now (call_log st (rate_key_of host key))) + i < RATE_LIMIT)"
  using assms by (simp add: serve_same_instant)

lemma serve_append:
  "serve host key (xs @ ys) st
     = (fst (serve host key xs st) @ fst (serve host key ys (snd (serve host key xs st))),
        snd (serve host key ys (snd (serve host key xs st))))"
  by (induction xs arbitrary: st) (simp_all split: prod.splits)


lemma serve_burst_log:
  assumes "\<And>u t. u \<in> set nows \<Longrightarrow> t \<in> set (call_log st (rate_key_of host key)) \<union> set nows
             \<Longrightarrow> u - 60 < t"
  shows "call_log (snd (serve host key nows st)) (rate_key_of host key)
           = call_log st (rate_key_of host key)
             @ take (RATE_LIMIT - length (call_log st (rate_key_of host key))) nows"
  using assms
proof (induction nows arbitrary: st)
  case Nil
  then show ?case by simp
next
  case (Cons now later)
  let ?k = "rate_key_of host key"
  let ?stamps = "call_log st ?k"
  have rec: "recent now ?stamps = ?stamps"
    by (rule recent_all) (use Cons.prems in auto)
  show ?case
  proof (cases "RATE_LIMIT \<le> length ?stamps")
    case True
    let ?st1 = "with_log st ?k ?stamps"
    have step: "rate_limiter host key now [] st = (Inl AttributeError, ?st1)"
      using True by (simp add: rate_limiter_step rec)
    have ih: "call_log (snd (serve host key later ?st1)) ?k
                = call_log ?st1 ?k @ take (RATE_LIMIT - length (call_log ?st1 ?k)) later"
      by (rule Cons.IH) (use Cons.prems in \<open>auto simp: call_log_with_log\<close>)
    have "call_log (snd (serve host key (now # later) st)) ?k
            = call_log (snd (serve host key later ?st1)) ?k"
      by (simp only: serve_Cons step snd_conv)
    also have "\<dots> = ?stamps @ take (RATE_LIMIT - length ?stamps) later"
      by (simp only: ih call_log_with_log)
    also have "\<dots> = ?stamps @ take (RATE_LIMIT - length ?stamps) (now # later)"
      using True by simp
    finally show ?thesis .
  next
    case False
    let ?st1 = "with_log st ?k (?stamps @ [now])"
    have step: "rate_limiter host key now [] st = (Inr (), ?st1)"
      using False by (simp add: rate_limiter_step rec)
    have ih: "call_log (snd (serve host key later ?st1)) ?k
                = call_log ?st1 ?k @ take (RATE_LIMIT - length (call_log ?st1 ?k)) later"
      by (rule Cons.IH) (use Cons.prems in \<open>auto simp: call_log_with_log\<close>)
    from False obtain m where m: "RATE_LIMIT - length ?stamps = Suc m"
      by (cases "RATE_LIMIT - length ?stamps") auto
    then have m': "RATE_LIMIT - Suc (length ?stamps) = m" by simp
    have "call_log (snd (serve host key (now # later) st)) ?k
            = call_log (snd (serve host key later ?st1)) ?k"
      by (simp only: serve_Cons step snd_conv)
    also have "\<dots> = (?stamps @ [now]) @ take (RATE_LIMIT - Suc (length ?stamps)) later"
      by (simp only: ih call_log_with_log length_append_singleton)
    also have "\<dots> = ?stamps @ take (RATE_LIMIT - length ?stamps) (now # later)"
      by (simp add: m m')
    finally show ?thesis .
  qed
qed

lemma serve_block_log: "block_log (snd (serve host key nows st)) = block_log st"
proof (induction nows arbitrary: st)
  case Nil
  then show ?case by simp
next
  case (Cons now later)
  show ?case
    by (simp only: serve_Cons Cons.IH block_log_after)
qed

lemma first_thirty:
  "fst (serve None ''k'' (replicate 30 0) startup) = replicate 30 (Inr ())"
  "call_log (snd (serve None ''k'' (replicate 30 0) startup)) (rate_key_of None ''k'') = replicate 30 0"
proof -
  have e: "call_log startup (rate_key_of None ''k'') = []"
    by (simp add: startup_def)
  have "fst (serve None ''k'' (replicate 30 0) startup)
          = map (\<lambda>i. if i < RATE_LIMIT then Inr () else Inl AttributeError) [0..<30]"
    by (simp add: serve_same_instant e recent_def)
  also have "\<dots> = map (\<lambda>i. Inr ()) [0..<30]"
    by (rule map_cong) (simp_all add: RATE_LIMIT_def)
  finally show "fst (serve None ''k'' (replicate 30 0) startup) = replicate 30 (Inr ())"
    by (simp add: map_replicate_const)
  have "call_log (snd (serve None ''k'' (replicate 30 0) startup)) (rate_key_of None ''k'')
          = call_log startup (rate_key_of None ''k'')
            @ take (RATE_LIMIT - length (call_log startup (rate_key_of None ''k''))) (replicate 30 0)"
    by (rule serve_burst_log) (auto simp: e)
  then show "call_log (snd (serve None ''k'' (replicate 30 0) startup)) (rate_key_of None ''k'')
               = replicate 30 0"
    by (simp add: e RATE_LIMIT_def)
qed

lemma after_window:
  assumes "60 \<le> now"
  shows "fst (serve None ''k'' (replicate 30 0 @ replicate n now) startup)
           = replicate 30 (Inr ()) @ map (\<lambda>i. if i < RATE_LIMIT then Inr () else Inl AttributeError) [0..<n]"
proof -
  let ?st = "snd (serve None ''k'' (replicate 30 0) startup)"
  have "recent now (call_log ?st (rate_key_of None ''k'')) = []"
    using assms by (simp add: first_thirty(2) recent_def)
  then have "fst (serve None ''k'' (replicate n now) ?st)
               = map (\<lambda>i. if i < RATE_LIMIT then Inr () else Inl AttributeError) [0..<n]"
    by (simp add: serve_same_instant)
  then show ?thesis
    by (simp add: serve_append first_thirty(1))
qed

lemma request_at_age_sixty: "fst (serve None ''k'' (replicate 30 0 @ [60]) startup) = replicate 30 (Inr ()) @ [Inr ()]"
  using after_window [of 60 1] by (simp add: RATE_LIMIT_def)

lemma two_requests_after_ties: "fst (serve None ''k'' (replicate 30 0 @ [61, 61]) startup) = replicate 30 (Inr ()) @ [Inr (), Inr ()]"
  using after_window [of 61 2] by (simp add: RATE_LIMIT_def numeral_2_eq_2)

lemma thirty_first_in_burst: "fst (serve None ''k'' (replicate 30 0 @ [0]) startup) = replicate 30 (Inr ()) @ [Inl AttributeError]"
proof -
  let ?st = "snd (serve None ''k'' (replicate 30 0) startup)"
  have "recent 0 (call_log ?st (rate_key_of None ''k'')) = replicate 30 0"
    by (simp add: first_thirty(2) recent_def)
  then have "fst (serve None ''k'' [0] ?st) = [Inl AttributeError]"
    using serve_same_instant [of None "''k''" "Suc 0" 0 ?st]
    by (simp add: RATE_LIMIT_def del: serve.simps)
  then show ?thesis
    by (simp add: serve_append first_thirty(1))
qed

text \<open>
  Claim C2, as stated, keeps denying until the oldest allowed timestamp has aged past
  sixty seconds, and then allows exactly one more request. The code prunes a timestamp
  as soon as its age reaches sixty seconds: after thirty requests at time 0 a request at
  time 60 is allowed. And it prunes every timestamp of that age at once: after thirty
  requests at time 0, two requests at time 61 are both allowed.
\<close>

theorem window_boundary_and_ties_counterexample:
  "fst (serve None ''k'' (replicate 30 0 @ [60]) startup) = replicate 30 (Inr ()) @ [Inr ()]
   \<and> fst (serve None ''k'' (replicate 30 0 @ [61, 61]) startup)
       = replicate 30 (Inr ()) @ [Inr (), Inr ()]"
  using request_at_age_sixty two_requests_after_ties by simp

text \<open>
  Claim C2, amended. A caller whose requests all lie strictly within one interval of
  sixty seconds, starting from an empty list, is allowed exactly the first thirty. In
  general a request at time \<open>now\<close> is allowed exactly when fewer than thirty of the
  caller's timestamps satisfy \<open>now - 60 < t\<close>; pruning keeps exactly those timestamps, so
  it removes the ones with \<open>t \<le> now - 60\<close>, an age of sixty seconds included, and an
  allowed request appends \<open>now\<close>. The list is a list: equal timestamps count one by one.
  Other callers' lists are untouched. With thirty timestamps stored, the next request is
  allowed exactly when the oldest of them satisfies \<open>t \<le> now - 60\<close>; of \<open>n\<close> requests
  arriving at one instant, as many are allowed as the pruned list leaves room below
  thirty. At startup every list is empty.
\<close>

theorem sliding_window_admission:
  "((\<forall>u \<in> set nows. \<forall>t \<in> set nows. u - 60 < t) \<and> call_log st (rate_key_of host key) = []
      \<and> i < length nows
      \<longrightarrow> (fst (serve host key nows st) ! i = Inr ()) = (i < 30))
   \<and> (fst (rate_limiter host key now stamp st) = Inr ())
       = (length (filter (\<lambda>t. now - 60 < t) (call_log st (rate_key_of host key))) < 30)
   \<and> call_log (snd (rate_limiter host key now stamp st)) (rate_key_of host key)
       = filter (\<lambda>t. now - 60 < t) (call_log st (rate_key_of host key))
         @ (if fst (rate_limiter host key now stamp st) = Inr () then [now] else [])
   \<and> (k' \<noteq> rate_key_of host key
        \<longrightarrow> call_log (snd (rate_limiter host key now stamp st)) k' = call_log st k')
   \<and> (length (call_log st (rate_key_of host key)) = 30
        \<longrightarrow> (fst (rate_limiter host key now stamp st) = Inr ())
             = (Min (set (call_log st (rate_key_of host key))) \<le> now - 60))
   \<and> (j < n
        \<longrightarrow> (fst (serve host key (replicate n now) st) ! j = Inr ())
             = (length (filter (\<lambda>t. now - 60 < t) (call_log st (rate_key_of host key))) + j < 30))
   \<and> call_log startup k' = [] \<and> block_log startup = []"
  using burst_nth [of nows st host key i] allowed_iff [of host key now stamp st]
    log_after [of host key now stamp st] log_other [of k' host key now stamp st]
    full_window_oldest [of st host key now stamp] same_instant_nth [of j n host key now st]
  by (simp add: RATE_LIMIT_def recent_def startup_def)

theorem sliding_window_admission_witness:
  "fst (serve None ''k'' (replicate 31 0) startup) ! 30 \<noteq> Inr ()
   \<and> fst (rate_limiter None ''k'' 60 [] (snd (serve None ''k'' (replicate 30 0) startup))) = Inr ()
   \<and> fst (rate_limiter None ''k'' 59 [] (snd (serve None ''k'' (replicate 30 0) startup))) \<noteq> Inr ()"
proof -
  let ?st = "snd (serve None ''k'' (replicate 30 0) startup)"
  have h1: "\<forall>u \<in> set (replicate 31 (0::rat)). \<forall>t \<in> set (replicate 31 (0::rat)). u - 60 < t"
    by simp
  have h2: "call_log startup (rate_key_of None ''k'') = []"
    by (simp add: startup_def)
  have h3: "30 < length (replicate 31 (0::rat))"
    by simp
  have len: "length (call_log ?st (rate_key_of None ''k'')) = 30"
    by (simp add: first_thirty(2))
  have mn: "Min (set (call_log ?st (rate_key_of None ''k''))) = 0"
    by (simp add: first_thirty(2))
  from sliding_window_admission [of "replicate 31 0" startup None "''k''" 30] h1 h2 h3
  have a: "fst (serve None ''k'' (replicate 31 0) startup) ! 30 \<noteq> Inr ()"
    by blast
  from sliding_window_admission [of _ ?st None "''k''" _ 60 "[]"] len
  have "(fst (rate_limiter None ''k'' 60 [] ?st) = Inr ())
          = (Min (set (call_log ?st (rate_key_of None ''k''))) \<le> 60 - 60)"
    by blast
  then have b: "fst (rate_limiter None ''k'' 60 [] ?st) = Inr ()"
    by (simp add: mn)
  from sliding_window_admission [of _ ?st None "''k''" _ 59 "[]"] len
  have "(fst (rate_limiter None ''k'' 59 [] ?st) = Inr ())
          = (Min (set (call_log ?st (rate_key_of None ''k''))) \<le> 59 - 60)"
    by blast
  then have c: "fst (rate_limiter None ''k'' 59 [] ?st) \<noteq> Inr ()"
    by (simp add: mn)
  from a b c show ?thesis by simp
qed

text \<open>
  Claim C3 says that a denial appends a block event and reaches the caller as a 429.
  The denial branch of the code raises \<open>AttributeError\<close> while it builds the event: the
  thirty-first request of a burst fails with that error, the block log stays empty, and
  no call of the limiter ever changes the block log or raises the 429.
\<close>

theorem denial_appends_no_block_event:
  "fst (serve None ''k'' (replicate 30 0 @ [0]) startup)
     = replicate 30 (Inr ()) @ [Inl AttributeError]
   \<and> block_log (snd (serve None ''k'' (replicate 30 0 @ [0]) startup)) = []
   \<and> block_log (snd (rate_limiter host key now stamp st)) = block_log st
   \<and> fst (rate_limiter host key now stamp st) \<noteq> Inl (HTTPException 429 d)"
  using thirty_first_in_burst serve_block_log [of None "''k''" "replicate 30 0 @ [0]" startup]
    block_log_after [of host key now stamp st] never_429 [of host key now stamp st d]
  by (simp add: startup_def)

section \<open>The upload\<close>

lemma upload_never_400: "fst (upload_file env filename content disk) \<noteq> Inl (HTTPException 400 d)"
  by (simp add: upload_file_def split: prod.splits sum.splits)

lemma upload_wraps:
  "fst (try_upload env filename content disk) = Inl e
     \<Longrightarrow> fst (upload_file env filename content disk)
           = Inl (HTTPException 500 (ErrorDict ''UPLOAD_FAILED''
               ''File upload failed due to an internal error.''))"
  by (cases "try_upload env filename content disk") (simp add: upload_file_def)

lemma upload_zip_body:
  "fst (try_upload sample_upload ''claim.zip'' ''PK'' Map.empty)
     = Inl (HTTPException 400 (ErrorDict ''INVALID_FILE_TYPE''
         (''File type application/zip is not allowed. Allowed types: ''
          @ ''[image/png, image/jpeg, application/pdf, text/plain]'')))"
  by (simp add: try_upload_def sample_upload_def FILE_SIZE_LIMITS_def)

lemma upload_zip:
  "fst (upload_file sample_upload ''claim.zip'' ''PK'' Map.empty)
     = Inl (HTTPException 500 (ErrorDict ''UPLOAD_FAILED''
         ''File upload failed due to an internal error.''))"
  by (simp add: upload_file_def try_upload_def sample_upload_def FILE_SIZE_LIMITS_def)

lemma upload_big_body:
  "fst (try_upload sample_upload ''big.txt'' (replicate (5 * 1024 * 1024 + 1) CHR ''a'') Map.empty)
     = Inl (HTTPException 400 (ErrorDict ''FILE_TOO_LARGE''
         ''File exceeds limit. Max allowed: 5.0MB''))"
  by (simp add: try_upload_def sample_upload_def FILE_SIZE_LIMITS_def numeral_2_eq_2)

lemma upload_big:
  "fst (upload_file sample_upload ''big.txt'' (replicate (5 * 1024 * 1024 + 1) CHR ''a'') Map.empty)
     = Inl (HTTPException 500 (ErrorDict ''UPLOAD_FAILED''
         ''File upload failed due to an internal error.''))"
  using upload_big_body by (rule upload_wraps)

text \<open>
  Claim C4 says that the caller receives the codes \<open>INVALID_FILE_TYPE\<close> and
  \<open>FILE_TOO_LARGE\<close>. The body of the upload raises them, with status 400, inside the
  \<open>try\<close> whose handler catches every exception: what leaves \<open>upload_file\<close> is the 500
  \<open>UPLOAD_FAILED\<close>, for a zip archive as for a text file one byte over five megabytes, and
  never a 400.
\<close>

theorem upload_rejections_surface_as_upload_failed:
  "fst (try_upload sample_upload ''claim.zip'' ''PK'' Map.empty)
     = Inl (HTTPException 400 (ErrorDict ''INVALID_FILE_TYPE''
         (''File type application/zip is not allowed. Allowed types: ''
          @ ''[image/png, image/jpeg, application/pdf, text/plain]'')))
   \<and> fst (upload_file sample_upload ''claim.zip'' ''PK'' Map.empty)
       = Inl (HTTPException 500 (ErrorDict ''UPLOAD_FAILED''
           ''File upload failed due to an internal error.''))
   \<and> fst (try_upload sample_upload ''big.txt'' (replicate (5 * 1024 * 1024 + 1) CHR ''a'') Map.empty)
       = Inl (HTTPException 400 (ErrorDict ''FILE_TOO_LARGE''
           ''File exceeds limit. Max allowed: 5.0MB''))
   \<and> fst (upload_file sample_upload ''big.txt'' (replicate (5 * 1024 * 1024 + 1) CHR ''a'') Map.empty)
       = Inl (HTTPException 500 (ErrorDict ''UPLOAD_FAILED''
           ''File upload failed due to an internal error.''))
   \<and> fst (upload_file env filename content disk) \<noteq> Inl (HTTPException 400 d)"
  using upload_zip_body upload_zip upload_big_body upload_big
    upload_never_400 [of env filename content disk d]
  by blast

end
